theory Spec2Isabelle
  imports Complex_Main "HOL-Library.AList"
begin

section \<open>Tokens, values and the syntax tree\<close>

text \<open>
  The headers \<^verbatim>\<open>token.hpp\<close>, \<open>expr.hpp\<close> and \<open>stmt.hpp\<close> are included by the sources
  but are not among them. The node shapes below are read off the typed child accessors
  \<^verbatim>\<open>child<i>()\<close> used in \<^verbatim>\<open>resolver.cpp\<close> and \<^verbatim>\<open>function.cpp\<close>; children that these files
  never touch (operator tokens, the closing parenthesis of a call) are kept as tokens.
\<close>

text \<open>Modelled from the spec: the variant \<^verbatim>\<open>Token::Value\<close> (declared in the missing
  \<^verbatim>\<open>token.hpp\<close>). Only \<^verbatim>\<open>NullType\<close> is named by the sources; numbers are kept abstract as
  reals, since nothing here computes with them.\<close>

datatype Value = NullType | Boolean bool | Number real | String string

record Token =
  lexeme :: string
  tok_value :: Value

text \<open>Modelled from the spec: the enumerations \<^verbatim>\<open>FunctionKind\<close> and \<^verbatim>\<open>ClassKind\<close>
  (declared in missing headers). The sources name \<^verbatim>\<open>UNBOUND\<close>, \<^verbatim>\<open>CONSTRUCTOR\<close>,
  \<^verbatim>\<open>LAMDBDA\<close> (spelled so), \<^verbatim>\<open>NONE\<close> and \<^verbatim>\<open>CLASS\<close>; free functions and methods are
  the other kinds the spec lists.\<close>

datatype FunctionKind = FUNCTION | METHOD | UNBOUND | CONSTRUCTOR | LAMDBDA

datatype ClassKind = NONE | CLASS

text \<open>
  The field \<^verbatim>\<open>depth\<close> is the last argument of the three reference nodes \<open>Assign\<close>,
  \<open>This\<close> and \<open>Variable\<close>; \<open>None\<close> is the unset field. The function kind is the fourth
  child of a function statement. A class statement holds function statements.
\<close>

datatype Expr =
    Assign Token Expr "nat option"
  | Binary Expr Token Expr
  | Call Expr Token "Expr list"
  | Get Expr Token
  | Grouping Expr
  | Lambda "Token list" "Stmt list"
  | Literal Value
  | Logical Expr Token Expr
  | Set Expr Token Expr
  | This Token "nat option"
  | Unary Token Expr
  | Ternary Expr Token Expr Token Expr
  | Variable Token "nat option"
  | Malformed
  | Empty
and Stmt =
    BlockStmt "Stmt list"
  | ClassStmt Token "FunctionStmt list"
  | ExprStmt Expr
  | FunctionDecl FunctionStmt
  | IfStmt Expr Stmt Stmt
  | PrintStmt Expr
  | ReturnStmt Token Expr
  | VarStmt Token Expr
  | WhileStmt Expr Stmt
  | MalformedStmt
  | EmptyStmt
and FunctionStmt =
    FunctionStmt Token "Token list" "Stmt list" FunctionKind

fun fn_params :: "FunctionStmt \<Rightarrow> Token list" where
  "fn_params (FunctionStmt name params body kind) = params"

fun fn_body :: "FunctionStmt \<Rightarrow> Stmt list" where
  "fn_body (FunctionStmt name params body kind) = body"

fun is_Empty :: "Expr \<Rightarrow> bool" where
  "is_Empty Empty = True"
| "is_Empty e = False"

section \<open>The resolver\<close>

subsection \<open>State\<close>

text \<open>
  A scope is a \<^verbatim>\<open>std::unordered_map<std::string, bool>\<close>, here an association list with
  unique keys; the scope stack is a vector whose back is the innermost scope, here a list
  whose last element is the innermost scope. The error handler of the interpreter is the
  list \<open>reported\<close> of the diagnostics handed to it, oldest first.
\<close>

type_synonym scope = "(string \<times> bool) list"

datatype CompiletimeError = CompiletimeError (token: Token) (what: string)

record Resolver =
  scopes :: "scope list"
  function_kind :: "FunctionKind option"
  class_kind :: ClassKind
  reported :: "CompiletimeError list"

definition new_Resolver :: Resolver where
  "new_Resolver = \<lparr>scopes = [], function_kind = None, class_kind = NONE, reported = []\<rparr>"

definition contains :: "scope \<Rightarrow> string \<Rightarrow> bool" where
  "contains sc k = (map_of sc k \<noteq> None)"

text \<open>\<^verbatim>\<open>emplace\<close> inserts only when the key is absent and says whether it inserted.\<close>

definition emplace :: "scope \<Rightarrow> string \<Rightarrow> bool \<Rightarrow> scope \<times> bool" where
  "emplace sc k v = (if contains sc k then (sc, False) else (sc @ [(k, v)], True))"

definition insert_or_assign :: "scope \<Rightarrow> string \<Rightarrow> bool \<Rightarrow> scope" where
  "insert_or_assign sc k v = AList.update k v sc"

definition emplace_back :: "scope \<Rightarrow> Resolver \<Rightarrow> Resolver" where
  "emplace_back sc r = r\<lparr>scopes := scopes r @ [sc]\<rparr>"

definition pop_back :: "Resolver \<Rightarrow> Resolver" where
  "pop_back r = r\<lparr>scopes := butlast (scopes r)\<rparr>"

definition set_back :: "scope \<Rightarrow> Resolver \<Rightarrow> Resolver" where
  "set_back sc r = r\<lparr>scopes := butlast (scopes r) @ [sc]\<rparr>"

definition error_report :: "CompiletimeError \<Rightarrow> Resolver \<Rightarrow> Resolver" where
  "error_report err r = r\<lparr>reported := reported r @ [err]\<rparr>"

subsection \<open>Declaring, defining and resolving a name\<close>

text \<open>\<open>declare_name\<close> and \<open>define_name\<close> are \<^verbatim>\<open>Resolver::declare\<close> and
  \<^verbatim>\<open>Resolver::define\<close>.\<close>

text \<open>
  A function that can throw returns the state it leaves behind together with the
  exception in flight, if any. Nothing is rolled back when an exception passes.
\<close>

definition declare_name :: "Token \<Rightarrow> Resolver \<Rightarrow> Resolver \<times> CompiletimeError option" where
  "declare_name identifier r =
     (if scopes r \<noteq> [] then
        (case emplace (last (scopes r)) (lexeme identifier) False of
           (sc, inserted) \<Rightarrow>
             if \<not> inserted then
               (r, Some (CompiletimeError identifier
                  ''Variable with this name is already declared in this scope''))
             else (set_back sc r, None))
      else (r, None))"

definition define_name :: "Token \<Rightarrow> Resolver \<Rightarrow> Resolver" where
  "define_name identifier r =
     (if scopes r \<noteq> [] then
        set_back (insert_or_assign (last (scopes r)) (lexeme identifier) True) r
      else r)"

text \<open>
  The loop \<^verbatim>\<open>for (int i = scopes.size() - 1; i >= 0; --i)\<close>: the second argument is
  \<open>i + 1\<close>, so that \<open>0\<close> is the exit of the loop. The result is the depth to store, or
  \<open>None\<close> when the loop falls through. (The stack is taken to hold fewer than \<open>2^31\<close>
  scopes, so that the conversion of the size to \<^verbatim>\<open>int\<close> keeps its value; on an empty
  stack \<^verbatim>\<open>i\<close> starts at \<open>-1\<close> and the loop body never runs.)
\<close>

fun resolve_local_loop :: "scope list \<Rightarrow> nat \<Rightarrow> string \<Rightarrow> nat option" where
  "resolve_local_loop scs 0 name = None"
| "resolve_local_loop scs (Suc i) name =
     (if contains (scs ! i) name then Some (length scs - 1 - i)
      else resolve_local_loop scs i name)"

text \<open>\<open>resolve_local\<close> on the field \<open>depth\<close> of the node it is given.\<close>

definition resolve_local :: "nat option \<Rightarrow> Token \<Rightarrow> Resolver \<Rightarrow> nat option" where
  "resolve_local depth identifier r =
     (case resolve_local_loop (scopes r) (length (scopes r)) (lexeme identifier) of
        Some d \<Rightarrow> Some d
      | None \<Rightarrow> depth)"

text \<open>The loop over the parameters in \<open>resolve_function\<close>.\<close>

fun declare_params :: "Token list \<Rightarrow> Resolver \<Rightarrow> Resolver \<times> CompiletimeError option" where
  "declare_params [] r = (r, None)"
| "declare_params (param # params) r =
     (case declare_name param r of
        (r1, Some err) \<Rightarrow> (r1, Some err)
      | (r1, None) \<Rightarrow> declare_params params (define_name param r1))"

subsection \<open>The visitor\<close>

text \<open>
  Every visit returns the node as the resolver leaves it, the resolver's state and the
  exception in flight. \<open>resolve_stmt\<close> is \<^verbatim>\<open>resolve(const stmt &)\<close>, the only place that
  catches; \<open>resolve_expr\<close> is \<^verbatim>\<open>resolve(const expr &)\<close> followed by the visit it dispatches
  to; \<open>visit_stmt\<close> is the dispatch on a statement.
\<close>

fun resolve_expr :: "Expr \<Rightarrow> Resolver \<Rightarrow> Expr \<times> Resolver \<times> CompiletimeError option"
and resolve_exprs :: "Expr list \<Rightarrow> Resolver \<Rightarrow> Expr list \<times> Resolver \<times> CompiletimeError option"
and visit_stmt :: "Stmt \<Rightarrow> Resolver \<Rightarrow> Stmt \<times> Resolver \<times> CompiletimeError option"
and resolve_stmt :: "Stmt \<Rightarrow> Resolver \<Rightarrow> Stmt \<times> Resolver"
and resolve_stmts :: "Stmt list \<Rightarrow> Resolver \<Rightarrow> Stmt list \<times> Resolver"
and resolve_function ::
  "Token list \<Rightarrow> Stmt list \<Rightarrow> FunctionKind \<Rightarrow> Resolver
     \<Rightarrow> Stmt list \<times> Resolver \<times> CompiletimeError option"
and resolve_methods ::
  "FunctionStmt list \<Rightarrow> Resolver \<Rightarrow> FunctionStmt list \<times> Resolver \<times> CompiletimeError option"
where
  "resolve_expr (Variable name depth) r =
     (if scopes r \<noteq> [] \<and> contains (last (scopes r)) (lexeme name)
         \<and> \<not> the (map_of (last (scopes r)) (lexeme name)) then
        (Variable name depth, r,
         Some (CompiletimeError name ''Can't read local variable in its own initializer.''))
      else (Variable name (resolve_local depth name r), r, None))"
| "resolve_expr (Assign name val depth) r =
     (case resolve_expr val r of
        (val', r1, Some err) \<Rightarrow> (Assign name val' depth, r1, Some err)
      | (val', r1, None) \<Rightarrow> (Assign name val' (resolve_local depth name r1), r1, None))"
| "resolve_expr (Lambda params body) r =
     (case resolve_function params body LAMDBDA r of
        (body', r1, err) \<Rightarrow> (Lambda params body', r1, err))"
| "resolve_expr (This keyword depth) r =
     (if class_kind r = NONE then
        (This keyword depth, r,
         Some (CompiletimeError keyword ''Can't use 'this' outside of a class''))
      else if function_kind r = Some UNBOUND then
        (This keyword depth, r,
         Some (CompiletimeError keyword ''Can't use 'this' in unbound methods''))
      else (This keyword (resolve_local depth keyword r), r, None))"
| "resolve_expr (Binary left op right) r =
     (case resolve_expr left r of
        (left', r1, Some err) \<Rightarrow> (Binary left' op right, r1, Some err)
      | (left', r1, None) \<Rightarrow>
          (case resolve_expr right r1 of
             (right', r2, err) \<Rightarrow> (Binary left' op right', r2, err)))"
| "resolve_expr (Call callee paren arguments) r =
     (case resolve_expr callee r of
        (callee', r1, Some err) \<Rightarrow> (Call callee' paren arguments, r1, Some err)
      | (callee', r1, None) \<Rightarrow>
          (case resolve_exprs arguments r1 of
             (arguments', r2, err) \<Rightarrow> (Call callee' paren arguments', r2, err)))"
| "resolve_expr (Grouping e) r =
     (case resolve_expr e r of (e', r1, err) \<Rightarrow> (Grouping e', r1, err))"
| "resolve_expr (Literal v) r = (Literal v, r, None)"
| "resolve_expr (Logical left op right) r =
     (case resolve_expr left r of
        (left', r1, Some err) \<Rightarrow> (Logical left' op right, r1, Some err)
      | (left', r1, None) \<Rightarrow>
          (case resolve_expr right r1 of
             (right', r2, err) \<Rightarrow> (Logical left' op right', r2, err)))"
| "resolve_expr (Unary op e) r =
     (case resolve_expr e r of (e', r1, err) \<Rightarrow> (Unary op e', r1, err))"
| "resolve_expr (Ternary c question a colon b) r =
     (case resolve_expr c r of
        (c', r1, Some err) \<Rightarrow> (Ternary c' question a colon b, r1, Some err)
      | (c', r1, None) \<Rightarrow>
          (case resolve_expr a r1 of
             (a', r2, Some err) \<Rightarrow> (Ternary c' question a' colon b, r2, Some err)
           | (a', r2, None) \<Rightarrow>
               (case resolve_expr b r2 of
                  (b', r3, err) \<Rightarrow> (Ternary c' question a' colon b', r3, err))))"
| "resolve_expr Malformed r = (Malformed, r, None)"
| "resolve_expr Empty r = (Empty, r, None)"
| "resolve_expr (Get object name) r =
     (case resolve_expr object r of (object', r1, err) \<Rightarrow> (Get object' name, r1, err))"
| "resolve_expr (Set object name val) r =
     (case resolve_expr object r of
        (object', r1, Some err) \<Rightarrow> (Set object' name val, r1, Some err)
      | (object', r1, None) \<Rightarrow>
          (case resolve_expr val r1 of
             (val', r2, err) \<Rightarrow> (Set object' name val', r2, err)))"

| "resolve_exprs [] r = ([], r, None)"
| "resolve_exprs (argument # arguments) r =
     (case resolve_expr argument r of
        (argument', r1, Some err) \<Rightarrow> (argument' # arguments, r1, Some err)
      | (argument', r1, None) \<Rightarrow>
          (case resolve_exprs arguments r1 of
             (arguments', r2, err) \<Rightarrow> (argument' # arguments', r2, err)))"

| "visit_stmt (BlockStmt statements) r =
     (case resolve_stmts statements (emplace_back [] r) of
        (statements', r1) \<Rightarrow> (BlockStmt statements', pop_back r1, None))"
| "visit_stmt (VarStmt name initializer) r =
     (case declare_name name r of
        (r1, Some err) \<Rightarrow> (VarStmt name initializer, r1, Some err)
      | (r1, None) \<Rightarrow>
          (case resolve_expr initializer r1 of
             (initializer', r2, Some err) \<Rightarrow> (VarStmt name initializer', r2, Some err)
           | (initializer', r2, None) \<Rightarrow> (VarStmt name initializer', define_name name r2, None)))"
| "visit_stmt (FunctionDecl (FunctionStmt name params body kind)) r =
     (case declare_name name r of
        (r1, Some err) \<Rightarrow> (FunctionDecl (FunctionStmt name params body kind), r1, Some err)
      | (r1, None) \<Rightarrow>
          (case resolve_function params body kind (define_name name r1) of
             (body', r2, err) \<Rightarrow> (FunctionDecl (FunctionStmt name params body' kind), r2, err)))"
| "visit_stmt (ReturnStmt keyword val) r =
     (if function_kind r = None then
        (ReturnStmt keyword val, r,
         Some (CompiletimeError keyword ''Can't return from top-level code''))
      else if function_kind r = Some CONSTRUCTOR \<and> \<not> is_Empty val then
        (ReturnStmt keyword val, r,
         Some (CompiletimeError keyword
           ''Can't return values from 'init' methods. Implicitly returns a new instance of the class''))
      else
        (case resolve_expr val r of (val', r1, err) \<Rightarrow> (ReturnStmt keyword val', r1, err)))"
| "visit_stmt (ClassStmt name methods) r =
     (case declare_name name (r\<lparr>class_kind := CLASS\<rparr>) of
        (r1, Some err) \<Rightarrow> (ClassStmt name methods, r1, Some err)
      | (r1, None) \<Rightarrow>
          (case resolve_methods methods (emplace_back [(''this'', True)] (define_name name r1)) of
             (methods', r2, Some err) \<Rightarrow> (ClassStmt name methods', r2, Some err)
           | (methods', r2, None) \<Rightarrow>
               (ClassStmt name methods', (pop_back r2)\<lparr>class_kind := class_kind r\<rparr>, None)))"
| "visit_stmt (ExprStmt e) r =
     (case resolve_expr e r of (e', r1, err) \<Rightarrow> (ExprStmt e', r1, err))"
| "visit_stmt (IfStmt condition then_branch else_branch) r =
     (case resolve_expr condition r of
        (condition', r1, Some err) \<Rightarrow>
          (IfStmt condition' then_branch else_branch, r1, Some err)
      | (condition', r1, None) \<Rightarrow>
          (case resolve_stmt then_branch r1 of
             (then_branch', r2) \<Rightarrow>
               (case resolve_stmt else_branch r2 of
                  (else_branch', r3) \<Rightarrow>
                    (IfStmt condition' then_branch' else_branch', r3, None))))"
| "visit_stmt (PrintStmt e) r =
     (case resolve_expr e r of (e', r1, err) \<Rightarrow> (PrintStmt e', r1, err))"
| "visit_stmt (WhileStmt condition body) r =
     (case resolve_expr condition r of
        (condition', r1, Some err) \<Rightarrow> (WhileStmt condition' body, r1, Some err)
      | (condition', r1, None) \<Rightarrow>
          (case resolve_stmt body r1 of
             (body', r2) \<Rightarrow> (WhileStmt condition' body', r2, None)))"
| "visit_stmt MalformedStmt r = (MalformedStmt, r, None)"
| "visit_stmt EmptyStmt r = (EmptyStmt, r, None)"

| "resolve_stmt statement r =
     (case visit_stmt statement r of
        (statement', r1, Some err) \<Rightarrow> (statement', error_report err r1)
      | (statement', r1, None) \<Rightarrow> (statement', r1))"

| "resolve_stmts [] r = ([], r)"
| "resolve_stmts (statement # statements) r =
     (case resolve_stmt statement r of
        (statement', r1) \<Rightarrow>
          (case resolve_stmts statements r1 of
             (statements', r2) \<Rightarrow> (statement' # statements', r2)))"

| "resolve_function params body type r =
     (case declare_params params (emplace_back [] (r\<lparr>function_kind := Some type\<rparr>)) of
        (r1, Some err) \<Rightarrow> (body, r1, Some err)
      | (r1, None) \<Rightarrow>
          (case resolve_stmts body (emplace_back [] r1) of
             (body', r2) \<Rightarrow>
               (body', (pop_back (pop_back r2))\<lparr>function_kind := function_kind r\<rparr>, None)))"

| "resolve_methods [] r = ([], r, None)"
| "resolve_methods (FunctionStmt name params body kind # methods) r =
     (let kind' = (if lexeme name = ''init'' then CONSTRUCTOR else kind) in
      case resolve_function params body kind' r of
        (body', r1, Some err) \<Rightarrow>
          (FunctionStmt name params body' kind' # methods, r1, Some err)
      | (body', r1, None) \<Rightarrow>
          (case resolve_methods methods r1 of
             (methods', r2, err) \<Rightarrow>
               (FunctionStmt name params body' kind' # methods', r2, err)))"

text \<open>
  The equations of \<open>resolve_stmt\<close> and \<open>resolve_function\<close> match every argument, so they
  are unfolded by name only.
\<close>

declare resolve_stmt.simps [simp del]
declare resolve_function.simps [simp del]

text \<open>A run of the pass: a fresh resolver on the statements of a program.\<close>

definition resolve_program :: "Stmt list \<Rightarrow> Stmt list \<times> Resolver" where
  "resolve_program statements = resolve_stmts statements new_Resolver"

subsection \<open>What a run may change\<close>

text \<open>
  \<open>erase_stmts ctor\<close> forgets what a run of the resolver may have written: it unsets the
  depth field of every reference node and, when \<open>ctor\<close> is set, overwrites the function
  kind of every class method named \<^verbatim>\<open>init\<close> with \<open>CONSTRUCTOR\<close>. Everything else is kept,
  so two trees with the same image differ in those fields at most.
\<close>

fun erase_expr :: "bool \<Rightarrow> Expr \<Rightarrow> Expr"
and erase_stmt :: "bool \<Rightarrow> Stmt \<Rightarrow> Stmt"
and erase_method :: "bool \<Rightarrow> FunctionStmt \<Rightarrow> FunctionStmt"
where
  "erase_expr ctor (Variable name depth) = Variable name None"
| "erase_expr ctor (Assign name val depth) = Assign name (erase_expr ctor val) None"
| "erase_expr ctor (This keyword depth) = This keyword None"
| "erase_expr ctor (Lambda params body) = Lambda params (map (erase_stmt ctor) body)"
| "erase_expr ctor (Binary left op right) =
     Binary (erase_expr ctor left) op (erase_expr ctor right)"
| "erase_expr ctor (Call callee paren arguments) =
     Call (erase_expr ctor callee) paren (map (erase_expr ctor) arguments)"
| "erase_expr ctor (Get object name) = Get (erase_expr ctor object) name"
| "erase_expr ctor (Grouping e) = Grouping (erase_expr ctor e)"
| "erase_expr ctor (Literal v) = Literal v"
| "erase_expr ctor (Logical left op right) =
     Logical (erase_expr ctor left) op (erase_expr ctor right)"
| "erase_expr ctor (Set object name val) =
     Set (erase_expr ctor object) name (erase_expr ctor val)"
| "erase_expr ctor (Unary op e) = Unary op (erase_expr ctor e)"
| "erase_expr ctor (Ternary c question a colon b) =
     Ternary (erase_expr ctor c) question (erase_expr ctor a) colon (erase_expr ctor b)"
| "erase_expr ctor Malformed = Malformed"
| "erase_expr ctor Empty = Empty"
| "erase_stmt ctor (BlockStmt statements) = BlockStmt (map (erase_stmt ctor) statements)"
| "erase_stmt ctor (ClassStmt name methods) = ClassStmt name (map (erase_method ctor) methods)"
| "erase_stmt ctor (ExprStmt e) = ExprStmt (erase_expr ctor e)"
| "erase_stmt ctor (FunctionDecl (FunctionStmt name params body kind)) =
     FunctionDecl (FunctionStmt name params (map (erase_stmt ctor) body) kind)"
| "erase_stmt ctor (IfStmt condition then_branch else_branch) =
     IfStmt (erase_expr ctor condition) (erase_stmt ctor then_branch)
       (erase_stmt ctor else_branch)"
| "erase_stmt ctor (PrintStmt e) = PrintStmt (erase_expr ctor e)"
| "erase_stmt ctor (ReturnStmt keyword val) = ReturnStmt keyword (erase_expr ctor val)"
| "erase_stmt ctor (VarStmt name initializer) = VarStmt name (erase_expr ctor initializer)"
| "erase_stmt ctor (WhileStmt condition body) =
     WhileStmt (erase_expr ctor condition) (erase_stmt ctor body)"
| "erase_stmt ctor MalformedStmt = MalformedStmt"
| "erase_stmt ctor EmptyStmt = EmptyStmt"
| "erase_method ctor (FunctionStmt name params body kind) =
     FunctionStmt name params (map (erase_stmt ctor) body)
       (if ctor \<and> lexeme name = ''init'' then CONSTRUCTOR else kind)"

definition erase_stmts :: "bool \<Rightarrow> Stmt list \<Rightarrow> Stmt list" where
  "erase_stmts ctor statements = map (erase_stmt ctor) statements"

subsection \<open>Parameter lists without repetition\<close>

text \<open>
  \<open>distinct_params_stmt s\<close>: in the statement \<open>s\<close> no lambda, function statement or class
  method has two parameters of the same name.
\<close>

fun distinct_params_expr :: "Expr \<Rightarrow> bool"
and distinct_params_stmt :: "Stmt \<Rightarrow> bool"
and distinct_params_fn :: "FunctionStmt \<Rightarrow> bool"
where
  "distinct_params_expr (Variable name depth) = True"
| "distinct_params_expr (Assign name val depth) = distinct_params_expr val"
| "distinct_params_expr (This keyword depth) = True"
| "distinct_params_expr (Lambda params body) =
     (distinct (map lexeme params) \<and> list_all distinct_params_stmt body)"
| "distinct_params_expr (Binary left op right) =
     (distinct_params_expr left \<and> distinct_params_expr right)"
| "distinct_params_expr (Call callee paren arguments) =
     (distinct_params_expr callee \<and> list_all distinct_params_expr arguments)"
| "distinct_params_expr (Get object name) = distinct_params_expr object"
| "distinct_params_expr (Grouping e) = distinct_params_expr e"
| "distinct_params_expr (Literal v) = True"
| "distinct_params_expr (Logical left op right) =
     (distinct_params_expr left \<and> distinct_params_expr right)"
| "distinct_params_expr (Set object name val) =
     (distinct_params_expr object \<and> distinct_params_expr val)"
| "distinct_params_expr (Unary op e) = distinct_params_expr e"
| "distinct_params_expr (Ternary c question a colon b) =
     (distinct_params_expr c \<and> distinct_params_expr a \<and> distinct_params_expr b)"
| "distinct_params_expr Malformed = True"
| "distinct_params_expr Empty = True"
| "distinct_params_stmt (BlockStmt statements) = list_all distinct_params_stmt statements"
| "distinct_params_stmt (ClassStmt name methods) = list_all distinct_params_fn methods"
| "distinct_params_stmt (ExprStmt e) = distinct_params_expr e"
| "distinct_params_stmt (FunctionDecl f) = distinct_params_fn f"
| "distinct_params_stmt (IfStmt condition then_branch else_branch) =
     (distinct_params_expr condition \<and> distinct_params_stmt then_branch
      \<and> distinct_params_stmt else_branch)"
| "distinct_params_stmt (PrintStmt e) = distinct_params_expr e"
| "distinct_params_stmt (ReturnStmt keyword val) = distinct_params_expr val"
| "distinct_params_stmt (VarStmt name initializer) = distinct_params_expr initializer"
| "distinct_params_stmt (WhileStmt condition body) =
     (distinct_params_expr condition \<and> distinct_params_stmt body)"
| "distinct_params_stmt MalformedStmt = True"
| "distinct_params_stmt EmptyStmt = True"
| "distinct_params_fn (FunctionStmt name params body kind) =
     (distinct (map lexeme params) \<and> list_all distinct_params_stmt body)"

subsection \<open>Initializers that read a name\<close>

text \<open>
  \<open>reads a e\<close>: the expression \<open>e\<close> holds a \<open>Variable\<close> node for the name \<open>a\<close> outside
  every lambda. \<open>plain e\<close>: \<open>e\<close> holds neither a lambda nor \<^verbatim>\<open>this\<close>. (The target of an
  assignment is not a read: the resolver visits it with \<open>resolve_local\<close> alone.)
\<close>

fun reads :: "string \<Rightarrow> Expr \<Rightarrow> bool" where
  "reads a (Variable name depth) = (lexeme name = a)"
| "reads a (Assign name val depth) = reads a val"
| "reads a (This keyword depth) = False"
| "reads a (Lambda params body) = False"
| "reads a (Binary left op right) = (reads a left \<or> reads a right)"
| "reads a (Call callee paren arguments) = (reads a callee \<or> list_ex (reads a) arguments)"
| "reads a (Get object name) = reads a object"
| "reads a (Grouping e) = reads a e"
| "reads a (Literal v) = False"
| "reads a (Logical left op right) = (reads a left \<or> reads a right)"
| "reads a (Set object name val) = (reads a object \<or> reads a val)"
| "reads a (Unary op e) = reads a e"
| "reads a (Ternary c question x colon y) = (reads a c \<or> reads a x \<or> reads a y)"
| "reads a Malformed = False"
| "reads a Empty = False"

fun plain :: "Expr \<Rightarrow> bool" where
  "plain (Variable name depth) = True"
| "plain (Assign name val depth) = plain val"
| "plain (This keyword depth) = False"
| "plain (Lambda params body) = False"
| "plain (Binary left op right) = (plain left \<and> plain right)"
| "plain (Call callee paren arguments) = (plain callee \<and> list_all plain arguments)"
| "plain (Get object name) = plain object"
| "plain (Grouping e) = plain e"
| "plain (Literal v) = True"
| "plain (Logical left op right) = (plain left \<and> plain right)"
| "plain (Set object name val) = (plain object \<and> plain val)"
| "plain (Unary op e) = plain e"
| "plain (Ternary c question x colon y) = (plain c \<and> plain x \<and> plain y)"
| "plain Malformed = True"
| "plain Empty = True"

text \<open>
  \<open>own_initializer_error r err\<close>: \<open>err\<close> is the diagnostic of \<open>resolve_expr\<close> for a variable
  read in its own initializer, and it names a variable that the innermost scope of \<open>r\<close>
  holds as declared and not yet defined.
\<close>

fun own_initializer_error :: "Resolver \<Rightarrow> CompiletimeError \<Rightarrow> bool" where
  "own_initializer_error r (CompiletimeError tok msg) =
     (msg = ''Can't read local variable in its own initializer.'' \<and> scopes r \<noteq> []
      \<and> map_of (last (scopes r)) (lexeme tok) = Some False)"

section \<open>Calling a user function\<close>

subsection \<open>Environments, the interpreter, exceptions\<close>

text \<open>Modelled from the spec: the class \<^verbatim>\<open>Environment\<close> (its header is missing): a mapping
  from names to values and an optional reference to the enclosing frame. Frames are named
  by references, as the pointers of the code name them.\<close>

type_synonym env_ref = nat

record Environment =
  bindings :: "(string \<times> Value) list"
  enclosing :: "env_ref option"

text \<open>The constructor \<^verbatim>\<open>Environment{enclosing}\<close>: an empty frame below \<open>enclosing\<close>.\<close>

definition new_Environment :: "env_ref \<Rightarrow> Environment" where
  "new_Environment enc = \<lparr>bindings = [], enclosing = Some enc\<rparr>"

text \<open>Modelled from the spec: \<^verbatim>\<open>Environment::define\<close>, which inserts the token's value under the
  token's name into this frame, overwriting a binding of the same name.\<close>

definition Environment_define :: "Token \<Rightarrow> Environment \<Rightarrow> Environment" where
  "Environment_define tok env =
     env\<lparr>bindings := AList.update (lexeme tok) (tok_value tok) (bindings env)\<rparr>"

text \<open>
  Of the interpreter, the current environment and the recursion depth. The members
  \<^verbatim>\<open>globals\<close>, \<^verbatim>\<open>out_stream\<close>, \<^verbatim>\<open>err_handler\<close>, \<^verbatim>\<open>last_value\<close> and \<^verbatim>\<open>interpreter_path\<close> are
  used by no function modelled here.
\<close>

record Interpreter =
  environment :: env_ref
  recursion_depth :: nat

text \<open>Modelled from the spec: the kinds of runtime error (\<^verbatim>\<open>error.hpp\<close> is missing).\<close>

datatype RuntimeError =
  StackOverflow | UndefinedVariable | UndefinedProperty | TypeError | NotCallable
  | ArityMismatch

text \<open>
  What can leave a function other than its result: the exception \<^verbatim>\<open>Interpreter::Return\<close>
  with the value it carries, a runtime error, or undefined behaviour (an index past the
  end of a vector under \<^verbatim>\<open>operator[]\<close>).
\<close>

datatype Unwinding = Return Value | Error RuntimeError | UndefinedBehaviour

subsection \<open>Function\<close>

text \<open>A \<^verbatim>\<open>Function\<close> holds its declaration (the member \<^verbatim>\<open>declaration\<close>, here
  \<open>fn_declaration\<close>) and nothing else; the constructor stores it.\<close>

record Function =
  fn_declaration :: FunctionStmt

definition new_Function :: "FunctionStmt \<Rightarrow> Function" where
  "new_Function decl = \<lparr>fn_declaration = decl\<rparr>"

definition arity :: "Function \<Rightarrow> nat" where
  "arity f = length (fn_params (fn_declaration f))"

text \<open>
  The loop \<^verbatim>\<open>for (size_t i = 0; i < parameters.size(); ++i)\<close> of \<^verbatim>\<open>Function::call\<close>. Reading
  \<^verbatim>\<open>arguments[i]\<close> past the end of the vector is undefined behaviour, here \<open>None\<close>.
\<close>

function bind_parameters ::
  "Token list \<Rightarrow> Value list \<Rightarrow> nat \<Rightarrow> Environment \<Rightarrow> Environment option" where
  "bind_parameters parameters arguments i env =
     (if i < length parameters then
        (if i < length arguments then
           bind_parameters parameters arguments (Suc i)
             (Environment_define ((parameters ! i)\<lparr>tok_value := arguments ! i\<rparr>) env)
         else None)
      else Some env)"
  by pat_completeness auto
termination
  by (relation "measure (\<lambda>(parameters, arguments, i, env). length parameters - i)") auto

declare bind_parameters.simps [simp del]

text \<open>The frame \<^verbatim>\<open>Function::call\<close> builds before it runs the body.\<close>

definition call_frame :: "Function \<Rightarrow> Interpreter \<Rightarrow> Value list \<Rightarrow> Environment option" where
  "call_frame f interpreter arguments =
     bind_parameters (fn_params (fn_declaration f)) arguments 0
       (new_Environment (environment interpreter))"

text \<open>
  \<^verbatim>\<open>Interpreter::execute_block\<close> is declared in \<^verbatim>\<open>interpreter.hpp\<close> and defined in a file that
  is missing, so \<^verbatim>\<open>Function::call\<close> takes it as a parameter: from the body, the frame and
  the interpreter to what it throws, if anything, and the interpreter afterwards.
\<close>

type_synonym block_executor =
  "Stmt list \<Rightarrow> Environment \<Rightarrow> Interpreter \<Rightarrow> Unwinding option \<times> Interpreter"

definition Function_call ::
  "block_executor \<Rightarrow> Function \<Rightarrow> Interpreter \<Rightarrow> Value list
     \<Rightarrow> (Unwinding + Value) \<times> Interpreter" where
  "Function_call execute_block f interpreter arguments =
     (case call_frame f interpreter arguments of
        None \<Rightarrow> (Inl UndefinedBehaviour, interpreter)
      | Some env \<Rightarrow>
          (case execute_block (fn_body (fn_declaration f)) env interpreter of
             (Some (Return val), interpreter') \<Rightarrow> (Inr val, interpreter')
           | (Some thrown, interpreter') \<Rightarrow> (Inl thrown, interpreter')
           | (None, interpreter') \<Rightarrow> (Inr NullType, interpreter')))"

subsection \<open>The recursion guard\<close>

definition MAX_RECURSION_DEPTH :: nat where
  "MAX_RECURSION_DEPTH = 1000"

text \<open>Modelled from the spec: the constructor of \<^verbatim>\<open>Interpreter::CheckedRecursiveDepth\<close>, which
  is declared in \<^verbatim>\<open>interpreter.hpp\<close> and defined in a missing file. If incrementing the depth
  would exceed the ceiling the call is refused with a stack overflow, else the depth is
  incremented.\<close>

definition CheckedRecursiveDepth_enter :: "Interpreter \<Rightarrow> Unwinding + Interpreter" where
  "CheckedRecursiveDepth_enter interpreter =
     (if recursion_depth interpreter + 1 > MAX_RECURSION_DEPTH then Inl (Error StackOverflow)
      else Inr (interpreter\<lparr>recursion_depth := recursion_depth interpreter + 1\<rparr>))"

text \<open>Modelled from the spec: the destructor of \<^verbatim>\<open>Interpreter::CheckedRecursiveDepth\<close>, which
  decrements the depth on every exit path of the scope that holds the guard. (The counter
  is a \<^verbatim>\<open>size_t\<close>; it is decremented only after an increment, so it never wraps.)\<close>

definition CheckedRecursiveDepth_leave :: "Interpreter \<Rightarrow> Interpreter" where
  "CheckedRecursiveDepth_leave interpreter =
     interpreter\<lparr>recursion_depth := recursion_depth interpreter - 1\<rparr>"

text \<open>Modelled from the spec: a call under the guard. \<open>work\<close> is everything the call does once
  admitted; whatever it yields, a value or an unwinding, the guard is released after it.\<close>

definition checked_call ::
  "(Interpreter \<Rightarrow> (Unwinding + Value) \<times> Interpreter) \<Rightarrow> Interpreter
     \<Rightarrow> (Unwinding + Value) \<times> Interpreter" where
  "checked_call work interpreter =
     (case CheckedRecursiveDepth_enter interpreter of
        Inl refused \<Rightarrow> (Inl refused, interpreter)
      | Inr admitted \<Rightarrow>
          (case work admitted of
             (result, interpreter') \<Rightarrow> (result, CheckedRecursiveDepth_leave interpreter')))"

text \<open>Modelled from the spec: a function whose body is a call of itself and nothing else, under
  the guard. The third component counts the calls that were admitted.\<close>

function self_call :: "Interpreter \<Rightarrow> (Unwinding + Value) \<times> Interpreter \<times> nat" where
  "self_call interpreter =
     (case CheckedRecursiveDepth_enter interpreter of
        Inl refused \<Rightarrow> (Inl refused, interpreter, 0)
      | Inr admitted \<Rightarrow>
          (case self_call admitted of
             (result, interpreter', n) \<Rightarrow>
               (result, CheckedRecursiveDepth_leave interpreter', Suc n)))"
  by pat_completeness auto
termination
  by (relation "measure (\<lambda>interpreter. Suc MAX_RECURSION_DEPTH - recursion_depth interpreter)")
     (auto simp: CheckedRecursiveDepth_enter_def split: if_splits)

declare self_call.simps [simp del]

section \<open>Properties of the resolver's primitives\<close>

lemma resolve_local_loop_none:
  "\<forall>j<n. \<not> contains (scs ! j) name \<Longrightarrow> resolve_local_loop scs n name = None"
  by (induction n) auto

lemma resolve_local_loop_found:
  "i < n \<Longrightarrow> contains (scs ! i) name \<Longrightarrow> \<forall>j. i < j \<and> j < n \<longrightarrow> \<not> contains (scs ! j) name
    \<Longrightarrow> resolve_local_loop scs n name = Some (length scs - 1 - i)"
proof (induction n)
  case 0
  then show ?case by simp
next
  case (Suc n)
  show ?case
  proof (cases "i = n")
    case True
    with Suc.prems show ?thesis by simp
  next
    case False
    with Suc.prems have "i < n" by simp
    moreover from Suc.prems \<open>i < n\<close> have "\<not> contains (scs ! n) name" by simp
    moreover from Suc.prems have "\<forall>j. i < j \<and> j < n \<longrightarrow> \<not> contains (scs ! j) name" by simp
    ultimately show ?thesis using Suc.IH Suc.prems(2) by simp
  qed
qed

text \<open>
  C5. \<open>resolve_local\<close> scans the scopes from the innermost (the last) outwards. If scope
  \<open>i\<close> contains the name and no scope inside it does, the node's depth becomes the number
  of scopes minus one minus \<open>i\<close>. If no scope contains the name the depth field is left
  as it was, so an unset field stays unset.
\<close>

theorem resolve_local_depth:
  "(i < length (scopes r) \<and> contains (scopes r ! i) (lexeme identifier)
      \<and> (\<forall>j. i < j \<and> j < length (scopes r) \<longrightarrow> \<not> contains (scopes r ! j) (lexeme identifier))
      \<longrightarrow> resolve_local depth identifier r = Some (length (scopes r) - 1 - i))
   \<and> ((\<forall>j<length (scopes r). \<not> contains (scopes r ! j) (lexeme identifier))
      \<longrightarrow> resolve_local depth identifier r = depth
        \<and> resolve_local None identifier r = None)"
proof (intro conjI impI)
  assume "i < length (scopes r) \<and> contains (scopes r ! i) (lexeme identifier)
      \<and> (\<forall>j. i < j \<and> j < length (scopes r) \<longrightarrow> \<not> contains (scopes r ! j) (lexeme identifier))"
  then have "resolve_local_loop (scopes r) (length (scopes r)) (lexeme identifier)
      = Some (length (scopes r) - 1 - i)"
    by (intro resolve_local_loop_found) auto
  then show "resolve_local depth identifier r = Some (length (scopes r) - 1 - i)"
    by (simp add: resolve_local_def)
next
  assume "\<forall>j<length (scopes r). \<not> contains (scopes r ! j) (lexeme identifier)"
  then have none: "resolve_local_loop (scopes r) (length (scopes r)) (lexeme identifier) = None"
    by (rule resolve_local_loop_none)
  then show "resolve_local depth identifier r = depth"
    by (simp add: resolve_local_def)
  from none show "resolve_local None identifier r = None"
    by (simp add: resolve_local_def)
qed

theorem resolve_local_depth_witness:
  "resolve_local None \<lparr>lexeme = ''x'', tok_value = NullType\<rparr>
     (new_Resolver\<lparr>scopes := [[(''x'', True)], [(''x'', True), (''y'', True)], [(''z'', False)]]\<rparr>)
     = Some 1
   \<and> resolve_local (Some 7) \<lparr>lexeme = ''w'', tok_value = NullType\<rparr>
     (new_Resolver\<lparr>scopes := [[(''x'', True)], [(''x'', True), (''y'', True)], [(''z'', False)]]\<rparr>)
     = Some 7"
proof -
  let ?r = "new_Resolver\<lparr>scopes := [[(''x'', True)], [(''x'', True), (''y'', True)], [(''z'', False)]]\<rparr>"
  have sc: "scopes ?r = [[(''x'', True)], [(''x'', True), (''y'', True)], [(''z'', False)]]"
    by (simp add: new_Resolver_def)
  have len: "length (scopes ?r) = 3" by (simp add: sc)
  have a: "(1::nat) < length (scopes ?r) \<and> contains (scopes ?r ! 1) ''x''
      \<and> (\<forall>j. 1 < j \<and> j < length (scopes ?r) \<longrightarrow> \<not> contains (scopes ?r ! j) ''x'')"
  proof (intro conjI allI impI)
    show "1 < length (scopes ?r)" by (simp add: sc)
    show "contains (scopes ?r ! 1) ''x''" by (simp add: sc contains_def)
    fix j assume "1 < j \<and> j < length (scopes ?r)"
    then have "j = 2" by (simp add: sc)
    then show "\<not> contains (scopes ?r ! j) ''x''" by (simp add: sc contains_def)
  qed
  have b: "\<forall>j<length (scopes ?r). \<not> contains (scopes ?r ! j) ''w''"
  proof (intro allI impI)
    fix j assume "j < length (scopes ?r)"
    then have "j = 0 \<or> j = 1 \<or> j = 2" by (auto simp: sc)
    then show "\<not> contains (scopes ?r ! j) ''w''" by (auto simp: sc contains_def)
  qed
  have "resolve_local None \<lparr>lexeme = ''x'', tok_value = NullType\<rparr> ?r = Some (length (scopes ?r) - 1 - 1)"
    using resolve_local_depth [of 1 ?r "\<lparr>lexeme = ''x'', tok_value = NullType\<rparr>" None] a
    by simp
  moreover have "resolve_local (Some 7) \<lparr>lexeme = ''w'', tok_value = NullType\<rparr> ?r = Some 7"
    using resolve_local_depth [of 0 ?r "\<lparr>lexeme = ''w'', tok_value = NullType\<rparr>" "Some 7"] b
    by simp
  ultimately show ?thesis by (simp add: len)
qed

section \<open>Global scope\<close>

lemma declare_params_global:
  "scopes r = [] \<Longrightarrow> declare_params params r = (r, None)"
  by (induction params) (simp_all add: declare_name_def define_name_def)

text \<open>
  C10. With an empty scope stack \<open>declare_name\<close> and \<open>define_name\<close> do nothing: no
  exception, and the resolver is left as it was, so no entry is recorded. Declaring and
  defining the same name \<open>n\<close> times in a row (the loop \<open>declare_params\<close> on \<open>n\<close> copies of
  the name) hence never raises the duplicate-declaration error either.
\<close>

theorem declare_define_global_noop:
  "scopes r = [] \<Longrightarrow>
     declare_name identifier r = (r, None)
   \<and> define_name identifier r = r
   \<and> fst (declare_name identifier (fst (declare_name identifier r))) = r
   \<and> snd (declare_name identifier (fst (declare_name identifier r))) = None
   \<and> declare_params (replicate n identifier) r = (r, None)"
  by (simp add: declare_name_def define_name_def declare_params_global)

theorem declare_define_global_noop_witness:
  "scopes new_Resolver = []
   \<and> declare_name \<lparr>lexeme = ''a'', tok_value = NullType\<rparr> new_Resolver = (new_Resolver, None)
   \<and> define_name \<lparr>lexeme = ''a'', tok_value = NullType\<rparr> new_Resolver = new_Resolver
   \<and> declare_params (replicate 3 \<lparr>lexeme = ''a'', tok_value = NullType\<rparr>) new_Resolver
       = (new_Resolver, None)"
proof -
  have e: "scopes new_Resolver = []" by (simp add: new_Resolver_def)
  show ?thesis
    using e declare_define_global_noop [OF e, of "\<lparr>lexeme = ''a'', tok_value = NullType\<rparr>" 3]
    by simp
qed

section \<open>The call protocol\<close>

lemma bind_parameters_in_bounds:
  "length parameters \<le> length arguments \<Longrightarrow> i \<le> length parameters \<Longrightarrow>
   bind_parameters parameters arguments i env =
     Some (fold (\<lambda>(p, a). Environment_define (p\<lparr>tok_value := a\<rparr>))
             (drop i (zip parameters arguments)) env)"
proof (induction parameters arguments i env rule: bind_parameters.induct)
  case (1 parameters arguments i env)
  show ?case
  proof (cases "i < length parameters")
    case True
    with "1.prems" have ia: "i < length arguments" by simp
    from True ia have d: "drop i (zip parameters arguments)
        = (parameters ! i, arguments ! i) # drop (Suc i) (zip parameters arguments)"
      by (simp add: Cons_nth_drop_Suc [symmetric])
    from True ia "1.prems" have
      "bind_parameters parameters arguments (Suc i)
         (Environment_define ((parameters ! i)\<lparr>tok_value := arguments ! i\<rparr>) env)
       = Some (fold (\<lambda>(p, a). Environment_define (p\<lparr>tok_value := a\<rparr>))
             (drop (Suc i) (zip parameters arguments))
             (Environment_define ((parameters ! i)\<lparr>tok_value := arguments ! i\<rparr>) env))"
      by (intro "1.IH") simp_all
    with True ia d show ?thesis by (subst bind_parameters.simps) simp
  next
    case False
    with "1.prems" have "i = length parameters" by simp
    then show ?thesis by (subst bind_parameters.simps) simp
  qed
qed

lemma bindings_fold_define:
  "bindings (fold (\<lambda>(p, a). Environment_define (p\<lparr>tok_value := a\<rparr>)) pas env)
     = fold (\<lambda>(p, a). AList.update (lexeme p) a) pas (bindings env)"
  by (induction pas arbitrary: env) (auto simp: Environment_define_def)

lemma map_of_fold_update_other:
  "\<forall>(p, a) \<in> set pas. lexeme p \<noteq> k \<Longrightarrow>
   map_of (fold (\<lambda>(p, a). AList.update (lexeme p) a) pas al) k = map_of al k"
  by (induction pas arbitrary: al) (auto simp: update_conv')

lemma map_of_fold_update_last:
  assumes "i < length pas"
    and "\<forall>j. i < j \<and> j < length pas \<longrightarrow> lexeme (fst (pas ! j)) \<noteq> lexeme (fst (pas ! i))"
  shows "map_of (fold (\<lambda>(p, a). AList.update (lexeme p) a) pas al) (lexeme (fst (pas ! i)))
     = Some (snd (pas ! i))"
  using assms
proof (induction pas arbitrary: al i)
  case Nil
  then show ?case by simp
next
  case (Cons pa pas)
  show ?case
  proof (cases i)
    case 0
    have "\<forall>(p, a) \<in> set pas. lexeme p \<noteq> lexeme (fst pa)"
    proof (clarify)
      fix p a assume "(p, a) \<in> set pas" and eq: "lexeme p = lexeme (fst pa)"
      then obtain j where "j < length pas" "pas ! j = (p, a)" by (auto simp: in_set_conv_nth)
      with Cons.prems(2) [rule_format, of "Suc j"] 0 eq show False by simp
    qed
    then show ?thesis using 0
      by (cases pa) (simp add: map_of_fold_update_other update_conv')
  next
    case (Suc i')
    with Cons.prems have "i' < length pas" by simp
    moreover have "\<forall>j. i' < j \<and> j < length pas \<longrightarrow> lexeme (fst (pas ! j)) \<noteq> lexeme (fst (pas ! i'))"
      using Cons.prems(2) Suc by (auto dest: spec [of _ "Suc j" for j])
    ultimately show ?thesis using Cons.IH Suc by (cases pa) simp
  qed
qed


text \<open>
  C9. When as many arguments are supplied as the function has parameters, the binding loop
  of \<open>Function_call\<close> reads no index past the end of the arguments (the frame is built, not
  undefined), the frame is the result of defining, in order, each parameter with the
  argument at its position, and in that frame every parameter name that no later parameter
  repeats is bound to the argument at its own position.
\<close>

theorem call_binds_parameters:
  assumes "length arguments = arity f"
  shows "\<exists>env. call_frame f interpreter arguments = Some env
    \<and> env = fold (\<lambda>(p, a). Environment_define (p\<lparr>tok_value := a\<rparr>))
              (zip (fn_params (fn_declaration f)) arguments)
              (new_Environment (environment interpreter))
    \<and> (\<forall>i<arity f.
          (\<forall>j. i < j \<and> j < arity f \<longrightarrow>
             lexeme (fn_params (fn_declaration f) ! j) \<noteq> lexeme (fn_params (fn_declaration f) ! i))
          \<longrightarrow> map_of (bindings env) (lexeme (fn_params (fn_declaration f) ! i))
                = Some (arguments ! i))"
proof -
  let ?ps = "fn_params (fn_declaration f)"
  let ?pas = "zip ?ps arguments"
  let ?env = "fold (\<lambda>(p, a). Environment_define (p\<lparr>tok_value := a\<rparr>)) ?pas
                (new_Environment (environment interpreter))"
  from assms have len: "length arguments = length ?ps" by (simp add: arity_def)
  then have frame: "call_frame f interpreter arguments = Some ?env"
    using bind_parameters_in_bounds [of ?ps arguments 0] by (simp add: call_frame_def)
  have "map_of (bindings ?env) (lexeme (?ps ! i)) = Some (arguments ! i)"
    if i: "i < arity f"
      and last: "\<forall>j. i < j \<and> j < arity f \<longrightarrow> lexeme (?ps ! j) \<noteq> lexeme (?ps ! i)" for i
  proof -
    from i len have il: "i < length ?pas" by (simp add: arity_def)
    have "\<forall>j. i < j \<and> j < length ?pas \<longrightarrow> lexeme (fst (?pas ! j)) \<noteq> lexeme (fst (?pas ! i))"
      using last len il by (simp add: arity_def)
    from map_of_fold_update_last [OF il this, of "bindings (new_Environment (environment interpreter))"]
    show ?thesis using il len by (simp add: bindings_fold_define)
  qed
  with frame show ?thesis by blast
qed

theorem call_binds_parameters_witness:
  "call_frame
     (new_Function (FunctionStmt \<lparr>lexeme = ''f'', tok_value = NullType\<rparr>
        [\<lparr>lexeme = ''a'', tok_value = NullType\<rparr>, \<lparr>lexeme = ''b'', tok_value = NullType\<rparr>]
        [] FUNCTION))
     \<lparr>environment = 0, recursion_depth = 0\<rparr> [Boolean True, String ''s'']
   = Some \<lparr>bindings = [(''a'', Boolean True), (''b'', String ''s'')], enclosing = Some 0\<rparr>"
proof -
  let ?f = "new_Function (FunctionStmt \<lparr>lexeme = ''f'', tok_value = NullType\<rparr>
        [\<lparr>lexeme = ''a'', tok_value = NullType\<rparr>, \<lparr>lexeme = ''b'', tok_value = NullType\<rparr>]
        [] FUNCTION)"
  have "length [Boolean True, String ''s''] = arity ?f"
    by (simp add: arity_def new_Function_def)
  from call_binds_parameters [OF this, of "\<lparr>environment = 0, recursion_depth = 0\<rparr>"]
  show ?thesis
    by (auto simp: new_Function_def new_Environment_def Environment_define_def)
qed

text \<open>
  C4. Once the frame of a call is built: if the body throws \<open>Return\<close> the call yields the
  value the exception carries; if the body completes without throwing the call yields
  \<open>NullType\<close>; and whatever the body does, \<open>Return\<close> never leaves \<open>Function_call\<close>.
\<close>

theorem call_catches_return:
  "(call_frame f interpreter arguments = Some env \<longrightarrow>
      (execute_block (fn_body (fn_declaration f)) env interpreter = (Some (Return val), interpreter')
         \<longrightarrow> Function_call execute_block f interpreter arguments = (Inr val, interpreter'))
    \<and> (execute_block (fn_body (fn_declaration f)) env interpreter = (None, interpreter')
         \<longrightarrow> Function_call execute_block f interpreter arguments = (Inr NullType, interpreter')))
   \<and> fst (Function_call execute_block f interpreter arguments) \<noteq> Inl (Return v)"
  by (auto simp: Function_call_def split: option.splits prod.splits Unwinding.splits)

theorem call_catches_return_witness:
  "Function_call (\<lambda>body env interpreter. (Some (Return (String ''r'')), interpreter))
     (new_Function (FunctionStmt \<lparr>lexeme = ''f'', tok_value = NullType\<rparr> [] [] FUNCTION))
     \<lparr>environment = 0, recursion_depth = 0\<rparr> []
     = (Inr (String ''r''), \<lparr>environment = 0, recursion_depth = 0\<rparr>)
   \<and> Function_call (\<lambda>body env interpreter. (None, interpreter))
     (new_Function (FunctionStmt \<lparr>lexeme = ''f'', tok_value = NullType\<rparr> [] [] FUNCTION))
     \<lparr>environment = 0, recursion_depth = 0\<rparr> []
     = (Inr NullType, \<lparr>environment = 0, recursion_depth = 0\<rparr>)"
proof -
  let ?f = "new_Function (FunctionStmt \<lparr>lexeme = ''f'', tok_value = NullType\<rparr> [] [] FUNCTION)"
  let ?i = "\<lparr>environment = 0, recursion_depth = 0\<rparr>"
  have frame: "call_frame ?f ?i [] = Some (new_Environment 0)"
    by (simp add: call_frame_def new_Function_def bind_parameters.simps)
  show ?thesis
    using frame
      call_catches_return [of ?f ?i "[]" "new_Environment 0"
        "\<lambda>body env interpreter. (Some (Return (String ''r'')), interpreter)" "String ''r''" ?i]
      call_catches_return [of ?f ?i "[]" "new_Environment 0"
        "\<lambda>body env interpreter. (None, interpreter)" _ ?i]
    by simp
qed

text \<open>
  C1 on the code. In \<^verbatim>\<open>{ var x = 1; fn f() { print x; } { f(); } }\<close> the resolver gives the
  read of \<open>x\<close> in the body of \<open>f\<close> the depth \<open>2\<close>: from the frame of the body over the frame
  of the parameters to the block that declares \<open>x\<close>, which is right only when the frame of
  a call encloses the environment in which \<open>f\<close> was defined. \<open>Function_call\<close> does not build
  that frame: the function value holds its declaration and no environment, and the frame
  of a call encloses whatever environment the interpreter has at the call. Called with the
  inner block's environment \<open>2\<close> current, \<open>f\<close> gets a frame below \<open>2\<close>, not below the
  environment \<open>1\<close> of the block it was defined in; called from there, it gets a frame
  below \<open>1\<close>.
\<close>

theorem call_frame_follows_call_site:
  "fst (resolve_program
     [BlockStmt
        [VarStmt \<lparr>lexeme = ''x'', tok_value = NullType\<rparr> (Literal (Number 1)),
         FunctionDecl (FunctionStmt \<lparr>lexeme = ''f'', tok_value = NullType\<rparr> []
           [PrintStmt (Variable \<lparr>lexeme = ''x'', tok_value = NullType\<rparr> None)] FUNCTION),
         BlockStmt
           [ExprStmt (Call (Variable \<lparr>lexeme = ''f'', tok_value = NullType\<rparr> None)
              \<lparr>lexeme = '')'', tok_value = NullType\<rparr> [])]]])
   = [BlockStmt
        [VarStmt \<lparr>lexeme = ''x'', tok_value = NullType\<rparr> (Literal (Number 1)),
         FunctionDecl (FunctionStmt \<lparr>lexeme = ''f'', tok_value = NullType\<rparr> []
           [PrintStmt (Variable \<lparr>lexeme = ''x'', tok_value = NullType\<rparr> (Some 2))] FUNCTION),
         BlockStmt
           [ExprStmt (Call (Variable \<lparr>lexeme = ''f'', tok_value = NullType\<rparr> (Some 1))
              \<lparr>lexeme = '')'', tok_value = NullType\<rparr> [])]]]
   \<and> call_frame
     (new_Function (FunctionStmt \<lparr>lexeme = ''f'', tok_value = NullType\<rparr> []
        [PrintStmt (Variable \<lparr>lexeme = ''x'', tok_value = NullType\<rparr> (Some 2))] FUNCTION))
     \<lparr>environment = 2, recursion_depth = 0\<rparr> []
   = Some \<lparr>bindings = [], enclosing = Some 2\<rparr>
   \<and> call_frame
     (new_Function (FunctionStmt \<lparr>lexeme = ''f'', tok_value = NullType\<rparr> []
        [PrintStmt (Variable \<lparr>lexeme = ''x'', tok_value = NullType\<rparr> (Some 2))] FUNCTION))
     \<lparr>environment = 1, recursion_depth = 0\<rparr> []
   = Some \<lparr>bindings = [], enclosing = Some 1\<rparr>"
  by (simp add: resolve_program_def new_Resolver_def resolve_stmt.simps resolve_function.simps
      declare_name_def define_name_def emplace_back_def pop_back_def set_back_def emplace_def
      contains_def insert_or_assign_def resolve_local_def error_report_def numeral_2_eq_2
      call_frame_def new_Function_def new_Environment_def bind_parameters.simps)

section \<open>The recursion guard\<close>


lemma self_call_from:
  "recursion_depth interpreter \<le> MAX_RECURSION_DEPTH \<Longrightarrow>
   self_call interpreter =
     (Inl (Error StackOverflow), interpreter, MAX_RECURSION_DEPTH - recursion_depth interpreter)"
proof (induction interpreter rule: self_call.induct)
  case (1 interpreter)
  show ?case
  proof (cases "recursion_depth interpreter + 1 > MAX_RECURSION_DEPTH")
    case True
    with "1.prems" have "recursion_depth interpreter = MAX_RECURSION_DEPTH" by simp
    with True show ?thesis
      by (subst self_call.simps) (simp add: CheckedRecursiveDepth_enter_def)
  next
    case False
    let ?a = "interpreter\<lparr>recursion_depth := recursion_depth interpreter + 1\<rparr>"
    from False have enter: "CheckedRecursiveDepth_enter interpreter = Inr ?a"
      by (simp add: CheckedRecursiveDepth_enter_def)
    from False have "recursion_depth ?a \<le> MAX_RECURSION_DEPTH" by simp
    from "1.IH" [OF enter this]
    have "self_call ?a = (Inl (Error StackOverflow), ?a, MAX_RECURSION_DEPTH - recursion_depth ?a)" .
    with enter False show ?thesis
      by (subst self_call.simps) (simp add: CheckedRecursiveDepth_leave_def Suc_diff_le)
  qed
qed

text \<open>
  C3, on the guard as the spec describes it. A call made at the ceiling is refused with
  \<open>StackOverflow\<close>, its work is not run and the counter is not touched. A call made
  below the ceiling runs its work with the counter incremented and decrements it
  afterwards, whatever the work yields (a value, \<open>Return\<close> or an error), so work that
  leaves the counter where it found it makes a call that does the same. A function that
  only calls itself, started at depth \<open>0\<close>, is admitted exactly 1000 times, fails with
  \<open>StackOverflow\<close>, and leaves the counter at \<open>0\<close>.
\<close>

theorem recursion_guard:
  "(MAX_RECURSION_DEPTH \<le> recursion_depth interpreter
      \<longrightarrow> checked_call work interpreter = (Inl (Error StackOverflow), interpreter))
   \<and> (recursion_depth interpreter < MAX_RECURSION_DEPTH
      \<longrightarrow> checked_call work interpreter =
            (fst (work (interpreter\<lparr>recursion_depth := recursion_depth interpreter + 1\<rparr>)),
             CheckedRecursiveDepth_leave
               (snd (work (interpreter\<lparr>recursion_depth := recursion_depth interpreter + 1\<rparr>)))))
   \<and> (recursion_depth interpreter < MAX_RECURSION_DEPTH
       \<and> recursion_depth
           (snd (work (interpreter\<lparr>recursion_depth := recursion_depth interpreter + 1\<rparr>)))
          = recursion_depth interpreter + 1
      \<longrightarrow> recursion_depth (snd (checked_call work interpreter)) = recursion_depth interpreter)
   \<and> (recursion_depth interpreter = 0
      \<longrightarrow> self_call interpreter = (Inl (Error StackOverflow), interpreter, 1000))"
proof (intro conjI impI)
  assume "MAX_RECURSION_DEPTH \<le> recursion_depth interpreter"
  then show "checked_call work interpreter = (Inl (Error StackOverflow), interpreter)"
    by (simp add: checked_call_def CheckedRecursiveDepth_enter_def)
next
  assume "recursion_depth interpreter < MAX_RECURSION_DEPTH"
  then show "checked_call work interpreter =
            (fst (work (interpreter\<lparr>recursion_depth := recursion_depth interpreter + 1\<rparr>)),
             CheckedRecursiveDepth_leave
               (snd (work (interpreter\<lparr>recursion_depth := recursion_depth interpreter + 1\<rparr>))))"
    by (simp add: checked_call_def CheckedRecursiveDepth_enter_def split: prod.splits)
next
  assume "recursion_depth interpreter < MAX_RECURSION_DEPTH
       \<and> recursion_depth
           (snd (work (interpreter\<lparr>recursion_depth := recursion_depth interpreter + 1\<rparr>)))
          = recursion_depth interpreter + 1"
  then show "recursion_depth (snd (checked_call work interpreter)) = recursion_depth interpreter"
    by (auto simp: checked_call_def CheckedRecursiveDepth_enter_def CheckedRecursiveDepth_leave_def
        split: prod.splits)
next
  assume "recursion_depth interpreter = 0"
  then show "self_call interpreter = (Inl (Error StackOverflow), interpreter, 1000)"
    using self_call_from [of interpreter] by (simp add: MAX_RECURSION_DEPTH_def)
qed

theorem recursion_guard_witness:
  "checked_call (\<lambda>i. (Inr NullType, i)) \<lparr>environment = 0, recursion_depth = 1000\<rparr>
     = (Inl (Error StackOverflow), \<lparr>environment = 0, recursion_depth = 1000\<rparr>)
   \<and> checked_call (\<lambda>i. (Inl (Return (Boolean True)), i)) \<lparr>environment = 0, recursion_depth = 999\<rparr>
     = (Inl (Return (Boolean True)), \<lparr>environment = 0, recursion_depth = 999\<rparr>)
   \<and> self_call \<lparr>environment = 0, recursion_depth = 0\<rparr>
     = (Inl (Error StackOverflow), \<lparr>environment = 0, recursion_depth = 0\<rparr>, 1000)"
  using recursion_guard [of "\<lparr>environment = 0, recursion_depth = 1000\<rparr>" "\<lambda>i. (Inr NullType, i)"]
    recursion_guard [of "\<lparr>environment = 0, recursion_depth = 999\<rparr>"
      "\<lambda>i. (Inl (Return (Boolean True)), i)"]
    recursion_guard [of "\<lparr>environment = 0, recursion_depth = 0\<rparr>" "\<lambda>i. (Inr NullType, i)"]
  by (simp add: MAX_RECURSION_DEPTH_def CheckedRecursiveDepth_leave_def)

section \<open>Resolving a resolved tree again\<close>

lemma resolve_local_idem:
  "resolve_local (resolve_local depth name r) name r = resolve_local depth name r"
  by (simp add: resolve_local_def split: option.splits)

lemma is_Empty_fst_resolve_expr:
  "is_Empty (fst (resolve_expr e r)) = is_Empty e"
  by (cases e) (simp_all split: prod.split option.split)

lemma is_Empty_resolve_expr:
  "resolve_expr e r = (e', r1, err) \<Longrightarrow> is_Empty e' = is_Empty e"
  using is_Empty_fst_resolve_expr [of e r] by simp

lemma twice_exprs:
  assumes "\<And>x r e' r1 err. x \<in> set es \<Longrightarrow> resolve_expr x r = (e', r1, err)
             \<Longrightarrow> resolve_expr e' r = (e', r1, err)"
  shows "resolve_exprs es r = (es', r1, err) \<Longrightarrow> resolve_exprs es' r = (es', r1, err)"
  using assms
proof (induction es arbitrary: r es' r1 err)
  case Nil
  then show ?case by simp
next
  case (Cons x xs)
  obtain x' ra ea where X: "resolve_expr x r = (x', ra, ea)" by (cases "resolve_expr x r")
  obtain xs' rb eb where XS: "resolve_exprs xs ra = (xs', rb, eb)"
    by (cases "resolve_exprs xs ra")
  have X2: "resolve_expr x' r = (x', ra, ea)" using Cons.prems(2) [of x r x' ra ea] X by simp
  have XS2: "resolve_exprs xs' ra = (xs', rb, eb)"
  proof (rule Cons.IH [OF XS])
    fix y r e' r1 err
    assume "y \<in> set xs" and "resolve_expr y r = (e', r1, err)"
    then show "resolve_expr e' r = (e', r1, err)" using Cons.prems(2) [of y r e' r1 err] by simp
  qed
  from Cons.prems(1) X XS X2 XS2 show ?case by (auto split: option.splits)
qed

lemma twice_stmt:
  assumes "\<And>r s' r1 err. visit_stmt s r = (s', r1, err) \<Longrightarrow> visit_stmt s' r = (s', r1, err)"
  shows "resolve_stmt s r = (s', r1) \<Longrightarrow> resolve_stmt s' r = (s', r1)"
proof -
  assume A: "resolve_stmt s r = (s', r1)"
  obtain t ra ea where V: "visit_stmt s r = (t, ra, ea)" by (cases "visit_stmt s r")
  from assms [OF V] A V show ?thesis by (auto simp: resolve_stmt.simps split: option.splits)
qed

lemma twice_stmts:
  assumes "\<And>x r s' r1 err. x \<in> set ss \<Longrightarrow> visit_stmt x r = (s', r1, err)
             \<Longrightarrow> visit_stmt s' r = (s', r1, err)"
  shows "resolve_stmts ss r = (ss', r1) \<Longrightarrow> resolve_stmts ss' r = (ss', r1)"
  using assms
proof (induction ss arbitrary: r ss' r1)
  case Nil
  then show ?case by simp
next
  case (Cons x xs)
  obtain x' ra where X: "resolve_stmt x r = (x', ra)" by (cases "resolve_stmt x r")
  obtain xs' rb where XS: "resolve_stmts xs ra = (xs', rb)" by (cases "resolve_stmts xs ra")
  have X2: "resolve_stmt x' r = (x', ra)"
  proof (rule twice_stmt [OF _ X])
    fix r s' r1 err
    assume "visit_stmt x r = (s', r1, err)"
    then show "visit_stmt s' r = (s', r1, err)" using Cons.prems(2) [of x r s' r1 err] by simp
  qed
  have XS2: "resolve_stmts xs' ra = (xs', rb)"
  proof (rule Cons.IH [OF XS])
    fix y r s' r1 err
    assume "y \<in> set xs" and "visit_stmt y r = (s', r1, err)"
    then show "visit_stmt s' r = (s', r1, err)" using Cons.prems(2) [of y r s' r1 err] by simp
  qed
  from Cons.prems(1) X XS X2 XS2 show ?case by auto
qed

lemma twice_function:
  assumes "\<And>x r s' r1 err. x \<in> set body \<Longrightarrow> visit_stmt x r = (s', r1, err)
             \<Longrightarrow> visit_stmt s' r = (s', r1, err)"
  shows "resolve_function ps body k r = (body', r1, err)
    \<Longrightarrow> resolve_function ps body' k r = (body', r1, err)"
proof -
  assume A: "resolve_function ps body k r = (body', r1, err)"
  obtain ra ea where D: "declare_params ps (emplace_back [] (r\<lparr>function_kind := Some k\<rparr>)) = (ra, ea)"
    by (cases "declare_params ps (emplace_back [] (r\<lparr>function_kind := Some k\<rparr>))")
  obtain b rb where B: "resolve_stmts body (emplace_back [] ra) = (b, rb)"
    by (cases "resolve_stmts body (emplace_back [] ra)")
  have B2: "resolve_stmts b (emplace_back [] ra) = (b, rb)"
    by (rule twice_stmts [OF assms B])
  from A D B B2 show ?thesis by (auto simp: resolve_function.simps split: option.splits)
qed

lemma twice_methods:
  assumes "\<And>f k r body' r1 err. f \<in> set ms
             \<Longrightarrow> resolve_function (fn_params f) (fn_body f) k r = (body', r1, err)
             \<Longrightarrow> resolve_function (fn_params f) body' k r = (body', r1, err)"
  shows "resolve_methods ms r = (ms', r1, err) \<Longrightarrow> resolve_methods ms' r = (ms', r1, err)"
  using assms
proof (induction ms arbitrary: r ms' r1 err)
  case Nil
  then show ?case by simp
next
  case (Cons f fs)
  obtain name params body kind where f: "f = FunctionStmt name params body kind" by (cases f)
  let ?k = "if lexeme name = ''init'' then CONSTRUCTOR else kind"
  obtain b ra ea where F: "resolve_function params body ?k r = (b, ra, ea)"
    by (cases "resolve_function params body ?k r")
  obtain fs' rb eb where FS: "resolve_methods fs ra = (fs', rb, eb)"
    by (cases "resolve_methods fs ra")
  have F2: "resolve_function params b ?k r = (b, ra, ea)"
    using Cons.prems(2) [of f ?k r b ra ea] F f by simp
  have FS2: "resolve_methods fs' ra = (fs', rb, eb)"
  proof (rule Cons.IH [OF FS])
    fix g k r body' r1 err
    assume "g \<in> set fs"
      and "resolve_function (fn_params g) (fn_body g) k r = (body', r1, err)"
    then show "resolve_function (fn_params g) body' k r = (body', r1, err)"
      using Cons.prems(2) [of g k r body' r1 err] by simp
  qed
  from Cons.prems(1) f F FS F2 FS2 show ?case
    by (auto simp: Let_def split: option.splits)
qed

lemma resolve_twice:
  "resolve_expr e r = (e', r1, err) \<Longrightarrow> resolve_expr e' r = (e', r1, err)"
  "visit_stmt s r = (s', r1, err) \<Longrightarrow> visit_stmt s' r = (s', r1, err)"
  "resolve_function (fn_params f) (fn_body f) k r = (body', r1, err)
     \<Longrightarrow> resolve_function (fn_params f) body' k r = (body', r1, err)"
proof (induction e and s and f arbitrary: r e' r1 err and r s' r1 err and k r body' r1 err)
  case (Assign name val depth)
  obtain v ra ea where V: "resolve_expr val r = (v, ra, ea)" by (cases "resolve_expr val r")
  note Assign.IH [OF V]
  with Assign.prems V show ?case by (auto simp: resolve_local_idem split: option.splits)
next
  case (Binary left op right)
  obtain l ra ea where L: "resolve_expr left r = (l, ra, ea)" by (cases "resolve_expr left r")
  obtain x rb eb where R: "resolve_expr right ra = (x, rb, eb)" by (cases "resolve_expr right ra")
  note Binary.IH(1) [OF L] Binary.IH(2) [OF R]
  with Binary.prems L R show ?case by (auto split: option.splits)
next
  case (Call callee paren arguments)
  obtain c ra ea where C: "resolve_expr callee r = (c, ra, ea)" by (cases "resolve_expr callee r")
  obtain as rb eb where A: "resolve_exprs arguments ra = (as, rb, eb)"
    by (cases "resolve_exprs arguments ra")
  note Call.IH(1) [OF C] twice_exprs [OF Call.IH(2) A]
  with Call.prems C A show ?case by (auto split: option.splits)
next
  case (Get object name)
  obtain ob ra ea where O: "resolve_expr object r = (ob, ra, ea)" by (cases "resolve_expr object r")
  note Get.IH [OF O]
  with Get.prems O show ?case by auto
next
  case (Grouping e)
  obtain x ra ea where E: "resolve_expr e r = (x, ra, ea)" by (cases "resolve_expr e r")
  note Grouping.IH [OF E]
  with Grouping.prems E show ?case by auto
next
  case (Lambda params body)
  obtain b ra ea where F: "resolve_function params body LAMDBDA r = (b, ra, ea)"
    by (cases "resolve_function params body LAMDBDA r")
  note twice_function [OF Lambda.IH F]
  with Lambda.prems F show ?case by auto
next
  case (Literal v)
  then show ?case by auto
next
  case (Logical left op right)
  obtain l ra ea where L: "resolve_expr left r = (l, ra, ea)" by (cases "resolve_expr left r")
  obtain x rb eb where R: "resolve_expr right ra = (x, rb, eb)" by (cases "resolve_expr right ra")
  note Logical.IH(1) [OF L] Logical.IH(2) [OF R]
  with Logical.prems L R show ?case by (auto split: option.splits)
next
  case (Set object name val)
  obtain ob ra ea where O: "resolve_expr object r = (ob, ra, ea)" by (cases "resolve_expr object r")
  obtain v rb eb where V: "resolve_expr val ra = (v, rb, eb)" by (cases "resolve_expr val ra")
  note Set.IH(1) [OF O] Set.IH(2) [OF V]
  with Set.prems O V show ?case by (auto split: option.splits)
next
  case (This keyword depth)
  then show ?case by (auto simp: resolve_local_idem split: if_splits)
next
  case (Unary op e)
  obtain x ra ea where E: "resolve_expr e r = (x, ra, ea)" by (cases "resolve_expr e r")
  note Unary.IH [OF E]
  with Unary.prems E show ?case by auto
next
  case (Ternary c question a colon b)
  obtain c' ra ea where C: "resolve_expr c r = (c', ra, ea)" by (cases "resolve_expr c r")
  obtain a' rb eb where A: "resolve_expr a ra = (a', rb, eb)" by (cases "resolve_expr a ra")
  obtain b' rc ec where B: "resolve_expr b rb = (b', rc, ec)" by (cases "resolve_expr b rb")
  note Ternary.IH(1) [OF C] Ternary.IH(2) [OF A] Ternary.IH(3) [OF B]
  with Ternary.prems C A B show ?case by (auto split: option.splits)
next
  case (Variable name depth)
  then show ?case by (auto simp: resolve_local_idem split: if_splits)
next
  case Malformed
  then show ?case by auto
next
  case Empty
  then show ?case by auto
next
  case (BlockStmt statements)
  obtain ss ra where S: "resolve_stmts statements (emplace_back [] r) = (ss, ra)"
    by (cases "resolve_stmts statements (emplace_back [] r)")
  note twice_stmts [OF BlockStmt.IH S]
  with BlockStmt.prems S show ?case by auto
next
  case (ClassStmt name methods)
  obtain ra ea where D: "declare_name name (r\<lparr>class_kind := CLASS\<rparr>) = (ra, ea)"
    by (cases "declare_name name (r\<lparr>class_kind := CLASS\<rparr>)")
  obtain ms rb eb where M:
    "resolve_methods methods (emplace_back [(''this'', True)] (define_name name ra)) = (ms, rb, eb)"
    by (cases "resolve_methods methods (emplace_back [(''this'', True)] (define_name name ra))")
  note twice_methods [OF ClassStmt.IH M]
  with ClassStmt.prems D M show ?case by (auto split: option.splits)
next
  case (ExprStmt e)
  obtain x ra ea where E: "resolve_expr e r = (x, ra, ea)" by (cases "resolve_expr e r")
  note ExprStmt.IH [OF E]
  with ExprStmt.prems E show ?case by auto
next
  case (FunctionDecl f)
  obtain name params body kind where f: "f = FunctionStmt name params body kind" by (cases f)
  obtain ra ea where D: "declare_name name r = (ra, ea)" by (cases "declare_name name r")
  obtain b rb eb where F: "resolve_function params body kind (define_name name ra) = (b, rb, eb)"
    by (cases "resolve_function params body kind (define_name name ra)")
  have "resolve_function params b kind (define_name name ra) = (b, rb, eb)"
    using FunctionDecl.IH [of kind "define_name name ra" b rb eb] F f by simp
  with FunctionDecl.prems f D F show ?case by (auto split: option.splits)
next
  case (IfStmt condition then_branch else_branch)
  obtain c ra ea where C: "resolve_expr condition r = (c, ra, ea)"
    by (cases "resolve_expr condition r")
  obtain t rb where T: "resolve_stmt then_branch ra = (t, rb)"
    by (cases "resolve_stmt then_branch ra")
  obtain e rc where E: "resolve_stmt else_branch rb = (e, rc)"
    by (cases "resolve_stmt else_branch rb")
  note IfStmt.IH(1) [OF C] twice_stmt [OF IfStmt.IH(2) T] twice_stmt [OF IfStmt.IH(3) E]
  with IfStmt.prems C T E show ?case by (auto split: option.splits)
next
  case (PrintStmt e)
  obtain x ra ea where E: "resolve_expr e r = (x, ra, ea)" by (cases "resolve_expr e r")
  note PrintStmt.IH [OF E]
  with PrintStmt.prems E show ?case by auto
next
  case (ReturnStmt keyword val)
  obtain v ra ea where V: "resolve_expr val r = (v, ra, ea)" by (cases "resolve_expr val r")
  note ReturnStmt.IH [OF V] is_Empty_resolve_expr [OF V]
  with ReturnStmt.prems V show ?case by (auto split: if_splits)
next
  case (VarStmt name initializer)
  obtain ra ea where D: "declare_name name r = (ra, ea)" by (cases "declare_name name r")
  obtain i rb eb where I: "resolve_expr initializer ra = (i, rb, eb)"
    by (cases "resolve_expr initializer ra")
  note VarStmt.IH [OF I]
  with VarStmt.prems D I show ?case by (auto split: option.splits)
next
  case (WhileStmt condition body)
  obtain c ra ea where C: "resolve_expr condition r = (c, ra, ea)"
    by (cases "resolve_expr condition r")
  obtain b rb where B: "resolve_stmt body ra = (b, rb)" by (cases "resolve_stmt body ra")
  note WhileStmt.IH(1) [OF C] twice_stmt [OF WhileStmt.IH(2) B]
  with WhileStmt.prems C B show ?case by (auto split: option.splits)
next
  case MalformedStmt
  then show ?case by auto
next
  case EmptyStmt
  then show ?case by auto
next
  case (FunctionStmt name params body kind)
  from FunctionStmt.prems have "resolve_function params body k r = (body', r1, err)" by simp
  from twice_function [OF FunctionStmt.IH this] show ?case by simp
qed


text \<open>
  C8. Running the pass on the tree that a run of the pass has produced changes nothing:
  the second run returns the very tree it was given, so every depth annotation is the one
  the first run wrote, and it reports the same diagnostics. This holds for every program,
  with or without free variables.
\<close>

theorem resolve_program_twice:
  "resolve_program (fst (resolve_program statements))
     = (fst (resolve_program statements), snd (resolve_program statements))"
proof -
  obtain ss r where R: "resolve_stmts statements new_Resolver = (ss, r)"
    by (cases "resolve_stmts statements new_Resolver")
  have "resolve_stmts ss new_Resolver = (ss, r)"
    by (rule twice_stmts [OF resolve_twice(2) R])
  with R show ?thesis by (simp add: resolve_program_def)
qed


theorem resolve_program_twice_witness:
  "resolve_program (fst (resolve_program
     [BlockStmt [VarStmt \<lparr>lexeme = ''x'', tok_value = NullType\<rparr> (Literal NullType),
                 PrintStmt (Variable \<lparr>lexeme = ''x'', tok_value = NullType\<rparr> None)]]))
   = ([BlockStmt [VarStmt \<lparr>lexeme = ''x'', tok_value = NullType\<rparr> (Literal NullType),
                  PrintStmt (Variable \<lparr>lexeme = ''x'', tok_value = NullType\<rparr> (Some 0))]],
      new_Resolver)"
proof -
  let ?p = "[BlockStmt [VarStmt \<lparr>lexeme = ''x'', tok_value = NullType\<rparr> (Literal NullType),
                 PrintStmt (Variable \<lparr>lexeme = ''x'', tok_value = NullType\<rparr> None)]]"
  have once: "resolve_program ?p
    = ([BlockStmt [VarStmt \<lparr>lexeme = ''x'', tok_value = NullType\<rparr> (Literal NullType),
                  PrintStmt (Variable \<lparr>lexeme = ''x'', tok_value = NullType\<rparr> (Some 0))]],
      new_Resolver)"
    by (simp add: resolve_program_def new_Resolver_def resolve_stmt.simps declare_name_def
        define_name_def emplace_back_def pop_back_def set_back_def emplace_def contains_def
        insert_or_assign_def resolve_local_def)
  from resolve_program_twice [of ?p] show ?thesis by (simp only: once fst_conv snd_conv)
qed

section \<open>What a run changes in the tree\<close>

lemma erase_exprs:
  assumes "\<And>x r e' r1 err. x \<in> set es \<Longrightarrow> resolve_expr x r = (e', r1, err)
             \<Longrightarrow> erase_expr True e' = erase_expr True x"
  shows "resolve_exprs es r = (es', r1, err)
    \<Longrightarrow> map (erase_expr True) es' = map (erase_expr True) es"
  using assms
proof (induction es arbitrary: r es' r1 err)
  case Nil
  then show ?case by simp
next
  case (Cons x xs)
  obtain x' ra ea where X: "resolve_expr x r = (x', ra, ea)" by (cases "resolve_expr x r")
  obtain xs' rb eb where XS: "resolve_exprs xs ra = (xs', rb, eb)"
    by (cases "resolve_exprs xs ra")
  have X2: "erase_expr True x' = erase_expr True x" using Cons.prems(2) [of x r x' ra ea] X by simp
  have XS2: "map (erase_expr True) xs' = map (erase_expr True) xs"
  proof (rule Cons.IH [OF XS])
    fix y r e' r1 err
    assume "y \<in> set xs" and "resolve_expr y r = (e', r1, err)"
    then show "erase_expr True e' = erase_expr True y"
      using Cons.prems(2) [of y r e' r1 err] by simp
  qed
  from Cons.prems(1) X XS X2 XS2 show ?case by (auto split: option.splits)
qed

lemma erase_resolve_stmt:
  assumes "\<And>r s' r1 err. visit_stmt s r = (s', r1, err) \<Longrightarrow> erase_stmt True s' = erase_stmt True s"
  shows "resolve_stmt s r = (s', r1) \<Longrightarrow> erase_stmt True s' = erase_stmt True s"
proof -
  assume A: "resolve_stmt s r = (s', r1)"
  obtain t ra ea where V: "visit_stmt s r = (t, ra, ea)" by (cases "visit_stmt s r")
  from assms [OF V] A V show ?thesis by (auto simp: resolve_stmt.simps split: option.splits)
qed

lemma erase_resolve_stmts:
  assumes "\<And>x r s' r1 err. x \<in> set ss \<Longrightarrow> visit_stmt x r = (s', r1, err)
             \<Longrightarrow> erase_stmt True s' = erase_stmt True x"
  shows "resolve_stmts ss r = (ss', r1) \<Longrightarrow> map (erase_stmt True) ss' = map (erase_stmt True) ss"
  using assms
proof (induction ss arbitrary: r ss' r1)
  case Nil
  then show ?case by simp
next
  case (Cons x xs)
  obtain x' ra where X: "resolve_stmt x r = (x', ra)" by (cases "resolve_stmt x r")
  obtain xs' rb where XS: "resolve_stmts xs ra = (xs', rb)" by (cases "resolve_stmts xs ra")
  have X2: "erase_stmt True x' = erase_stmt True x"
  proof (rule erase_resolve_stmt [OF _ X])
    fix r s' r1 err
    assume "visit_stmt x r = (s', r1, err)"
    then show "erase_stmt True s' = erase_stmt True x"
      using Cons.prems(2) [of x r s' r1 err] by simp
  qed
  have XS2: "map (erase_stmt True) xs' = map (erase_stmt True) xs"
  proof (rule Cons.IH [OF XS])
    fix y r s' r1 err
    assume "y \<in> set xs" and "visit_stmt y r = (s', r1, err)"
    then show "erase_stmt True s' = erase_stmt True y"
      using Cons.prems(2) [of y r s' r1 err] by simp
  qed
  from Cons.prems(1) X XS X2 XS2 show ?case by auto
qed

lemma erase_resolve_function:
  assumes "\<And>x r s' r1 err. x \<in> set body \<Longrightarrow> visit_stmt x r = (s', r1, err)
             \<Longrightarrow> erase_stmt True s' = erase_stmt True x"
  shows "resolve_function ps body k r = (body', r1, err)
    \<Longrightarrow> map (erase_stmt True) body' = map (erase_stmt True) body"
proof -
  assume A: "resolve_function ps body k r = (body', r1, err)"
  obtain ra ea where D: "declare_params ps (emplace_back [] (r\<lparr>function_kind := Some k\<rparr>)) = (ra, ea)"
    by (cases "declare_params ps (emplace_back [] (r\<lparr>function_kind := Some k\<rparr>))")
  obtain b rb where B: "resolve_stmts body (emplace_back [] ra) = (b, rb)"
    by (cases "resolve_stmts body (emplace_back [] ra)")
  have B2: "map (erase_stmt True) b = map (erase_stmt True) body"
    by (rule erase_resolve_stmts [OF assms B])
  from A D B B2 show ?thesis by (auto simp: resolve_function.simps split: option.splits)
qed

lemma erase_resolve_methods:
  assumes "\<And>f k r body' r1 err. f \<in> set ms
             \<Longrightarrow> resolve_function (fn_params f) (fn_body f) k r = (body', r1, err)
             \<Longrightarrow> map (erase_stmt True) body' = map (erase_stmt True) (fn_body f)"
  shows "resolve_methods ms r = (ms', r1, err)
    \<Longrightarrow> map (erase_method True) ms' = map (erase_method True) ms"
  using assms
proof (induction ms arbitrary: r ms' r1 err)
  case Nil
  then show ?case by simp
next
  case (Cons f fs)
  obtain name params body kind where f: "f = FunctionStmt name params body kind" by (cases f)
  let ?k = "if lexeme name = ''init'' then CONSTRUCTOR else kind"
  obtain b ra ea where F: "resolve_function params body ?k r = (b, ra, ea)"
    by (cases "resolve_function params body ?k r")
  obtain fs' rb eb where FS: "resolve_methods fs ra = (fs', rb, eb)"
    by (cases "resolve_methods fs ra")
  have F2: "map (erase_stmt True) b = map (erase_stmt True) body"
    using Cons.prems(2) [of f ?k r b ra ea] F f by simp
  have FS2: "map (erase_method True) fs' = map (erase_method True) fs"
  proof (rule Cons.IH [OF FS])
    fix g k r body' r1 err
    assume "g \<in> set fs"
      and "resolve_function (fn_params g) (fn_body g) k r = (body', r1, err)"
    then show "map (erase_stmt True) body' = map (erase_stmt True) (fn_body g)"
      using Cons.prems(2) [of g k r body' r1 err] by simp
  qed
  from Cons.prems(1) f F FS F2 FS2 show ?case
    by (auto simp: Let_def split: option.splits)
qed

lemma erase_resolved:
  "resolve_expr e r = (e', r1, err) \<Longrightarrow> erase_expr True e' = erase_expr True e"
  "visit_stmt s r = (s', r1, err) \<Longrightarrow> erase_stmt True s' = erase_stmt True s"
  "resolve_function (fn_params f) (fn_body f) k r = (body', r1, err)
     \<Longrightarrow> map (erase_stmt True) body' = map (erase_stmt True) (fn_body f)"
proof (induction e and s and f arbitrary: r e' r1 err and r s' r1 err and k r body' r1 err)
  case (Assign name val depth)
  obtain v ra ea where V: "resolve_expr val r = (v, ra, ea)" by (cases "resolve_expr val r")
  note Assign.IH [OF V]
  with Assign.prems V show ?case by (auto split: option.splits)
next
  case (Binary left op right)
  obtain l ra ea where L: "resolve_expr left r = (l, ra, ea)" by (cases "resolve_expr left r")
  obtain x rb eb where R: "resolve_expr right ra = (x, rb, eb)" by (cases "resolve_expr right ra")
  note Binary.IH(1) [OF L] Binary.IH(2) [OF R]
  with Binary.prems L R show ?case by (auto split: option.splits)
next
  case (Call callee paren arguments)
  obtain c ra ea where C: "resolve_expr callee r = (c, ra, ea)" by (cases "resolve_expr callee r")
  obtain as rb eb where A: "resolve_exprs arguments ra = (as, rb, eb)"
    by (cases "resolve_exprs arguments ra")
  note Call.IH(1) [OF C] erase_exprs [OF Call.IH(2) A]
  with Call.prems C A show ?case by (auto split: option.splits)
next
  case (Get object name)
  obtain ob ra ea where O: "resolve_expr object r = (ob, ra, ea)" by (cases "resolve_expr object r")
  note Get.IH [OF O]
  with Get.prems O show ?case by auto
next
  case (Grouping e)
  obtain x ra ea where E: "resolve_expr e r = (x, ra, ea)" by (cases "resolve_expr e r")
  note Grouping.IH [OF E]
  with Grouping.prems E show ?case by auto
next
  case (Lambda params body)
  obtain b ra ea where F: "resolve_function params body LAMDBDA r = (b, ra, ea)"
    by (cases "resolve_function params body LAMDBDA r")
  note erase_resolve_function [OF Lambda.IH F]
  with Lambda.prems F show ?case by auto
next
  case (Literal v)
  then show ?case by auto
next
  case (Logical left op right)
  obtain l ra ea where L: "resolve_expr left r = (l, ra, ea)" by (cases "resolve_expr left r")
  obtain x rb eb where R: "resolve_expr right ra = (x, rb, eb)" by (cases "resolve_expr right ra")
  note Logical.IH(1) [OF L] Logical.IH(2) [OF R]
  with Logical.prems L R show ?case by (auto split: option.splits)
next
  case (Set object name val)
  obtain ob ra ea where O: "resolve_expr object r = (ob, ra, ea)" by (cases "resolve_expr object r")
  obtain v rb eb where V: "resolve_expr val ra = (v, rb, eb)" by (cases "resolve_expr val ra")
  note Set.IH(1) [OF O] Set.IH(2) [OF V]
  with Set.prems O V show ?case by (auto split: option.splits)
next
  case (This keyword depth)
  then show ?case by (auto split: if_splits)
next
  case (Unary op e)
  obtain x ra ea where E: "resolve_expr e r = (x, ra, ea)" by (cases "resolve_expr e r")
  note Unary.IH [OF E]
  with Unary.prems E show ?case by auto
next
  case (Ternary c question a colon b)
  obtain c' ra ea where C: "resolve_expr c r = (c', ra, ea)" by (cases "resolve_expr c r")
  obtain a' rb eb where A: "resolve_expr a ra = (a', rb, eb)" by (cases "resolve_expr a ra")
  obtain b' rc ec where B: "resolve_expr b rb = (b', rc, ec)" by (cases "resolve_expr b rb")
  note Ternary.IH(1) [OF C] Ternary.IH(2) [OF A] Ternary.IH(3) [OF B]
  with Ternary.prems C A B show ?case by (auto split: option.splits)
next
  case (Variable name depth)
  then show ?case by (auto split: if_splits)
next
  case Malformed
  then show ?case by auto
next
  case Empty
  then show ?case by auto
next
  case (BlockStmt statements)
  obtain ss ra where S: "resolve_stmts statements (emplace_back [] r) = (ss, ra)"
    by (cases "resolve_stmts statements (emplace_back [] r)")
  note erase_resolve_stmts [OF BlockStmt.IH S]
  with BlockStmt.prems S show ?case by auto
next
  case (ClassStmt name methods)
  obtain ra ea where D: "declare_name name (r\<lparr>class_kind := CLASS\<rparr>) = (ra, ea)"
    by (cases "declare_name name (r\<lparr>class_kind := CLASS\<rparr>)")
  obtain ms rb eb where M:
    "resolve_methods methods (emplace_back [(''this'', True)] (define_name name ra)) = (ms, rb, eb)"
    by (cases "resolve_methods methods (emplace_back [(''this'', True)] (define_name name ra))")
  note erase_resolve_methods [OF ClassStmt.IH M]
  with ClassStmt.prems D M show ?case by (auto split: option.splits)
next
  case (ExprStmt e)
  obtain x ra ea where E: "resolve_expr e r = (x, ra, ea)" by (cases "resolve_expr e r")
  note ExprStmt.IH [OF E]
  with ExprStmt.prems E show ?case by auto
next
  case (FunctionDecl f)
  obtain name params body kind where f: "f = FunctionStmt name params body kind" by (cases f)
  obtain ra ea where D: "declare_name name r = (ra, ea)" by (cases "declare_name name r")
  obtain b rb eb where F: "resolve_function params body kind (define_name name ra) = (b, rb, eb)"
    by (cases "resolve_function params body kind (define_name name ra)")
  have "map (erase_stmt True) b = map (erase_stmt True) body"
    using FunctionDecl.IH [of kind "define_name name ra" b rb eb] F f by simp
  with FunctionDecl.prems f D F show ?case by (auto split: option.splits)
next
  case (IfStmt condition then_branch else_branch)
  obtain c ra ea where C: "resolve_expr condition r = (c, ra, ea)"
    by (cases "resolve_expr condition r")
  obtain t rb where T: "resolve_stmt then_branch ra = (t, rb)"
    by (cases "resolve_stmt then_branch ra")
  obtain e rc where E: "resolve_stmt else_branch rb = (e, rc)"
    by (cases "resolve_stmt else_branch rb")
  note IfStmt.IH(1) [OF C] erase_resolve_stmt [OF IfStmt.IH(2) T]
    erase_resolve_stmt [OF IfStmt.IH(3) E]
  with IfStmt.prems C T E show ?case by (auto split: option.splits)
next
  case (PrintStmt e)
  obtain x ra ea where E: "resolve_expr e r = (x, ra, ea)" by (cases "resolve_expr e r")
  note PrintStmt.IH [OF E]
  with PrintStmt.prems E show ?case by auto
next
  case (ReturnStmt keyword val)
  obtain v ra ea where V: "resolve_expr val r = (v, ra, ea)" by (cases "resolve_expr val r")
  note ReturnStmt.IH [OF V]
  with ReturnStmt.prems V show ?case by (auto split: if_splits)
next
  case (VarStmt name initializer)
  obtain ra ea where D: "declare_name name r = (ra, ea)" by (cases "declare_name name r")
  obtain i rb eb where I: "resolve_expr initializer ra = (i, rb, eb)"
    by (cases "resolve_expr initializer ra")
  note VarStmt.IH [OF I]
  with VarStmt.prems D I show ?case by (auto split: option.splits)
next
  case (WhileStmt condition body)
  obtain c ra ea where C: "resolve_expr condition r = (c, ra, ea)"
    by (cases "resolve_expr condition r")
  obtain b rb where B: "resolve_stmt body ra = (b, rb)" by (cases "resolve_stmt body ra")
  note WhileStmt.IH(1) [OF C] erase_resolve_stmt [OF WhileStmt.IH(2) B]
  with WhileStmt.prems C B show ?case by (auto split: option.splits)
next
  case MalformedStmt
  then show ?case by auto
next
  case EmptyStmt
  then show ?case by auto
next
  case (FunctionStmt name params body kind)
  from FunctionStmt.prems have "resolve_function params body k r = (body', r1, err)" by simp
  from erase_resolve_function [OF FunctionStmt.IH this] show ?case by simp
qed

text \<open>
  C7 as stated: a run changes depth fields only. It fails on a class with a method named
  \<^verbatim>\<open>init\<close>: the run overwrites the method's function kind, here \<open>METHOD\<close>, with
  \<open>CONSTRUCTOR\<close>, so the trees differ even with every depth field unset.
\<close>

theorem resolve_program_changes_kind:
  "fst (resolve_program
     [ClassStmt \<lparr>lexeme = ''C'', tok_value = NullType\<rparr>
        [FunctionStmt \<lparr>lexeme = ''init'', tok_value = NullType\<rparr> [] [] METHOD]])
   = [ClassStmt \<lparr>lexeme = ''C'', tok_value = NullType\<rparr>
        [FunctionStmt \<lparr>lexeme = ''init'', tok_value = NullType\<rparr> [] [] CONSTRUCTOR]]
   \<and> erase_stmts False (fst (resolve_program
     [ClassStmt \<lparr>lexeme = ''C'', tok_value = NullType\<rparr>
        [FunctionStmt \<lparr>lexeme = ''init'', tok_value = NullType\<rparr> [] [] METHOD]]))
   \<noteq> erase_stmts False
     [ClassStmt \<lparr>lexeme = ''C'', tok_value = NullType\<rparr>
        [FunctionStmt \<lparr>lexeme = ''init'', tok_value = NullType\<rparr> [] [] METHOD]]"
  by (simp add: resolve_program_def new_Resolver_def resolve_stmt.simps resolve_function.simps
      declare_name_def define_name_def emplace_back_def pop_back_def erase_stmts_def)

text \<open>
  C7, amended. A run of the resolver, from any state, changes in the tree at most the depth
  fields of the reference nodes and the function-kind fields of the class methods named
  \<^verbatim>\<open>init\<close>: with those fields forgotten the tree after the run is the tree before it. The
  function kind of every function statement that is not such a method is kept.
\<close>

theorem resolve_changes_depth_and_init_kind_only:
  "erase_stmts True (fst (resolve_stmts statements r)) = erase_stmts True statements
   \<and> erase_stmts True (fst (resolve_program statements)) = erase_stmts True statements"
proof -
  have "map (erase_stmt True) (fst (resolve_stmts statements r')) = map (erase_stmt True) statements"
    for r'
  proof -
    obtain ss r1 where R: "resolve_stmts statements r' = (ss, r1)"
      by (cases "resolve_stmts statements r'")
    from erase_resolve_stmts [OF erase_resolved(2) R] R show ?thesis by simp
  qed
  then show ?thesis by (simp add: erase_stmts_def resolve_program_def)
qed


theorem resolve_changes_depth_and_init_kind_only_witness:
  "erase_stmts True (fst (resolve_program
     [ClassStmt \<lparr>lexeme = ''C'', tok_value = NullType\<rparr>
        [FunctionStmt \<lparr>lexeme = ''init'', tok_value = NullType\<rparr> [] [] METHOD]]))
   = [ClassStmt \<lparr>lexeme = ''C'', tok_value = NullType\<rparr>
        [FunctionStmt \<lparr>lexeme = ''init'', tok_value = NullType\<rparr> [] [] CONSTRUCTOR]]"
  using resolve_changes_depth_and_init_kind_only
    [of "[ClassStmt \<lparr>lexeme = ''C'', tok_value = NullType\<rparr>
        [FunctionStmt \<lparr>lexeme = ''init'', tok_value = NullType\<rparr> [] [] METHOD]]" new_Resolver]
  by (simp add: erase_stmts_def)

section \<open>Reading a variable in its own initializer\<close>

lemma plain_exprs_unchanged:
  assumes "\<And>x r e' r1 err. x \<in> set es \<Longrightarrow> plain x \<Longrightarrow> resolve_expr x r = (e', r1, err)
     \<Longrightarrow> r1 = r \<and> (\<forall>x. err = Some x \<longrightarrow> own_initializer_error r x)"
  shows "list_all plain es \<Longrightarrow> resolve_exprs es r = (es', r1, err)
     \<Longrightarrow> r1 = r \<and> (\<forall>x. err = Some x \<longrightarrow> own_initializer_error r x)"
  using assms
proof (induction es arbitrary: r es' r1 err)
  case Nil
  then show ?case by simp
next
  case (Cons x xs)
  obtain x' ra ea where X: "resolve_expr x r = (x', ra, ea)" by (cases "resolve_expr x r")
  obtain xs' rb eb where XS: "resolve_exprs xs ra = (xs', rb, eb)"
    by (cases "resolve_exprs xs ra")
  from Cons.prems(1) have px: "plain x" and pxs: "list_all plain xs" by simp_all
  note X2 = Cons.prems(3) [of x r x' ra ea, simplified, OF px X]
  have XS2: "rb = ra \<and> (\<forall>x. eb = Some x \<longrightarrow> own_initializer_error ra x)"
  proof (rule Cons.IH [OF pxs XS])
    fix y r e' r1 err
    assume "y \<in> set xs" and "plain y" and "resolve_expr y r = (e', r1, err)"
    then show "r1 = r \<and> (\<forall>x. err = Some x \<longrightarrow> own_initializer_error r x)"
      using Cons.prems(3) [of y r e' r1 err] by simp
  qed
  from Cons.prems(2) X XS X2 XS2 show ?case by (auto split: option.splits)
qed

lemma plain_resolve_expr:
  "plain e \<Longrightarrow> resolve_expr e r = (e', r1, err)
     \<Longrightarrow> r1 = r \<and> (\<forall>x. err = Some x \<longrightarrow> own_initializer_error r x)"
  and "True" and "True"
proof (induction e and "s :: Stmt" and "f :: FunctionStmt" arbitrary: r e' r1 err)
  case (Assign name val depth)
  obtain v ra ea where V: "resolve_expr val r = (v, ra, ea)" by (cases "resolve_expr val r")
  from Assign.prems(1) have "plain val" by simp
  note Assign.IH [OF this V]
  with Assign.prems V show ?case by (auto split: option.splits)
next
  case (Binary left op right)
  obtain l ra ea where L: "resolve_expr left r = (l, ra, ea)" by (cases "resolve_expr left r")
  obtain x rb eb where R: "resolve_expr right ra = (x, rb, eb)" by (cases "resolve_expr right ra")
  from Binary.prems(1) have p: "plain left" "plain right" by simp_all
  note Binary.IH(1) [OF p(1) L] Binary.IH(2) [OF p(2) R]
  with Binary.prems L R show ?case by (auto split: option.splits)
next
  case (Call callee paren arguments)
  obtain c ra ea where C: "resolve_expr callee r = (c, ra, ea)" by (cases "resolve_expr callee r")
  obtain as rb eb where A: "resolve_exprs arguments ra = (as, rb, eb)"
    by (cases "resolve_exprs arguments ra")
  from Call.prems(1) have p: "plain callee" "list_all plain arguments" by simp_all
  note Call.IH(1) [OF p(1) C] plain_exprs_unchanged [OF Call.IH(2) p(2) A]
  with Call.prems C A show ?case by (auto split: option.splits)
next
  case (Get object name)
  obtain ob ra ea where O: "resolve_expr object r = (ob, ra, ea)" by (cases "resolve_expr object r")
  from Get.prems(1) have "plain object" by simp
  note Get.IH [OF this O]
  with Get.prems O show ?case by auto
next
  case (Grouping e)
  obtain x ra ea where E: "resolve_expr e r = (x, ra, ea)" by (cases "resolve_expr e r")
  from Grouping.prems(1) have "plain e" by simp
  note Grouping.IH [OF this E]
  with Grouping.prems E show ?case by auto
next
  case (Logical left op right)
  obtain l ra ea where L: "resolve_expr left r = (l, ra, ea)" by (cases "resolve_expr left r")
  obtain x rb eb where R: "resolve_expr right ra = (x, rb, eb)" by (cases "resolve_expr right ra")
  from Logical.prems(1) have p: "plain left" "plain right" by simp_all
  note Logical.IH(1) [OF p(1) L] Logical.IH(2) [OF p(2) R]
  with Logical.prems L R show ?case by (auto split: option.splits)
next
  case (Set object name val)
  obtain ob ra ea where O: "resolve_expr object r = (ob, ra, ea)" by (cases "resolve_expr object r")
  obtain v rb eb where V: "resolve_expr val ra = (v, rb, eb)" by (cases "resolve_expr val ra")
  from Set.prems(1) have p: "plain object" "plain val" by simp_all
  note Set.IH(1) [OF p(1) O] Set.IH(2) [OF p(2) V]
  with Set.prems O V show ?case by (auto split: option.splits)
next
  case (Unary op e)
  obtain x ra ea where E: "resolve_expr e r = (x, ra, ea)" by (cases "resolve_expr e r")
  from Unary.prems(1) have "plain e" by simp
  note Unary.IH [OF this E]
  with Unary.prems E show ?case by auto
next
  case (Ternary c question a colon b)
  obtain c' ra ea where C: "resolve_expr c r = (c', ra, ea)" by (cases "resolve_expr c r")
  obtain a' rb eb where A: "resolve_expr a ra = (a', rb, eb)" by (cases "resolve_expr a ra")
  obtain b' rc ec where B: "resolve_expr b rb = (b', rc, ec)" by (cases "resolve_expr b rb")
  from Ternary.prems(1) have p: "plain c" "plain a" "plain b" by simp_all
  note Ternary.IH(1) [OF p(1) C] Ternary.IH(2) [OF p(2) A] Ternary.IH(3) [OF p(3) B]
  with Ternary.prems C A B show ?case by (auto split: option.splits)
next
  case (Variable name depth)
  then show ?case by (auto simp: contains_def split: if_splits)
qed auto


lemma reads_exprs_raise:
  assumes "\<And>x r e' r1 err. x \<in> set es \<Longrightarrow> plain x \<Longrightarrow> reads a x \<Longrightarrow> scopes r \<noteq> []
     \<Longrightarrow> map_of (last (scopes r)) a = Some False \<Longrightarrow> resolve_expr x r = (e', r1, err)
     \<Longrightarrow> err \<noteq> None"
  shows "list_all plain es \<Longrightarrow> list_ex (reads a) es \<Longrightarrow> scopes r \<noteq> []
     \<Longrightarrow> map_of (last (scopes r)) a = Some False \<Longrightarrow> resolve_exprs es r = (es', r1, err)
     \<Longrightarrow> err \<noteq> None"
  using assms
proof (induction es arbitrary: r es' r1 err)
  case Nil
  then show ?case by simp
next
  case (Cons x xs)
  obtain x' ra ea where X: "resolve_expr x r = (x', ra, ea)" by (cases "resolve_expr x r")
  obtain xs' rb eb where XS: "resolve_exprs xs ra = (xs', rb, eb)"
    by (cases "resolve_exprs xs ra")
  from Cons.prems(1) have px: "plain x" and pxs: "list_all plain xs" by simp_all
  from plain_resolve_expr(1) [OF px X] have ra: "ra = r" by simp
  have X2: "reads a x \<Longrightarrow> ea \<noteq> None"
    using Cons.prems(6) [of x r x' ra ea] px Cons.prems(3,4) X by simp
  have XS2: "list_ex (reads a) xs \<Longrightarrow> eb \<noteq> None"
  proof -
    assume ex: "list_ex (reads a) xs"
    show "eb \<noteq> None"
    proof (rule Cons.IH [OF pxs ex _ _ XS])
      show "scopes ra \<noteq> []" using ra Cons.prems(3) by simp
      show "map_of (last (scopes ra)) a = Some False" using ra Cons.prems(4) by simp
    next
      fix y r e' r1 err
      assume "y \<in> set xs" "plain y" "reads a y" "scopes r \<noteq> []"
        "map_of (last (scopes r)) a = Some False" "resolve_expr y r = (e', r1, err)"
      then show "err \<noteq> None" using Cons.prems(6) [of y r e' r1 err] by simp
    qed
  qed
  from Cons.prems(2,5) X XS X2 XS2 show ?case by (auto split: option.splits)
qed

lemma reads_resolve_expr:
  "plain e \<Longrightarrow> reads a e \<Longrightarrow> scopes r \<noteq> [] \<Longrightarrow> map_of (last (scopes r)) a = Some False
     \<Longrightarrow> resolve_expr e r = (e', r1, err) \<Longrightarrow> err \<noteq> None"
  and "True" and "True"
proof (induction e and "s :: Stmt" and "f :: FunctionStmt" arbitrary: r e' r1 err)
  case (Assign name val depth)
  obtain v ra ea where V: "resolve_expr val r = (v, ra, ea)" by (cases "resolve_expr val r")
  from Assign.prems have "plain val" "reads a val" by simp_all
  note Assign.IH [OF this Assign.prems(3,4) V]
  with Assign.prems V show ?case by (auto split: option.splits)
next
  case (Binary left op right)
  obtain l ra ea where L: "resolve_expr left r = (l, ra, ea)" by (cases "resolve_expr left r")
  obtain x rb eb where R: "resolve_expr right ra = (x, rb, eb)" by (cases "resolve_expr right ra")
  from Binary.prems(1) have p: "plain left" "plain right" by simp_all
  from plain_resolve_expr(1) [OF p(1) L] have ra: "ra = r" by simp
  have "reads a left \<Longrightarrow> ea \<noteq> None" using Binary.IH(1) [OF p(1) _ Binary.prems(3,4) L] .
  moreover have "reads a right \<Longrightarrow> eb \<noteq> None"
    using Binary.IH(2) [OF p(2) _ _ _ R] ra Binary.prems(3,4) by simp
  ultimately show ?case using Binary.prems(2,5) L R by (auto split: option.splits)
next
  case (Call callee paren arguments)
  obtain c ra ea where C: "resolve_expr callee r = (c, ra, ea)" by (cases "resolve_expr callee r")
  obtain as rb eb where A: "resolve_exprs arguments ra = (as, rb, eb)"
    by (cases "resolve_exprs arguments ra")
  from Call.prems(1) have p: "plain callee" "list_all plain arguments" by simp_all
  from plain_resolve_expr(1) [OF p(1) C] have ra: "ra = r" by simp
  have "reads a callee \<Longrightarrow> ea \<noteq> None" using Call.IH(1) [OF p(1) _ Call.prems(3,4) C] .
  moreover have "list_ex (reads a) arguments \<Longrightarrow> eb \<noteq> None"
    using reads_exprs_raise [OF Call.IH(2) p(2) _ _ _ A] ra Call.prems(3,4) by simp
  ultimately show ?case using Call.prems(2,5) C A by (auto split: option.splits)
next
  case (Get object name)
  obtain ob ra ea where O: "resolve_expr object r = (ob, ra, ea)" by (cases "resolve_expr object r")
  from Get.prems have "plain object" "reads a object" by simp_all
  note Get.IH [OF this Get.prems(3,4) O]
  with Get.prems O show ?case by auto
next
  case (Grouping e)
  obtain x ra ea where E: "resolve_expr e r = (x, ra, ea)" by (cases "resolve_expr e r")
  from Grouping.prems have "plain e" "reads a e" by simp_all
  note Grouping.IH [OF this Grouping.prems(3,4) E]
  with Grouping.prems E show ?case by auto
next
  case (Logical left op right)
  obtain l ra ea where L: "resolve_expr left r = (l, ra, ea)" by (cases "resolve_expr left r")
  obtain x rb eb where R: "resolve_expr right ra = (x, rb, eb)" by (cases "resolve_expr right ra")
  from Logical.prems(1) have p: "plain left" "plain right" by simp_all
  from plain_resolve_expr(1) [OF p(1) L] have ra: "ra = r" by simp
  have "reads a left \<Longrightarrow> ea \<noteq> None" using Logical.IH(1) [OF p(1) _ Logical.prems(3,4) L] .
  moreover have "reads a right \<Longrightarrow> eb \<noteq> None"
    using Logical.IH(2) [OF p(2) _ _ _ R] ra Logical.prems(3,4) by simp
  ultimately show ?case using Logical.prems(2,5) L R by (auto split: option.splits)
next
  case (Set object name val)
  obtain ob ra ea where O: "resolve_expr object r = (ob, ra, ea)" by (cases "resolve_expr object r")
  obtain v rb eb where V: "resolve_expr val ra = (v, rb, eb)" by (cases "resolve_expr val ra")
  from Set.prems(1) have p: "plain object" "plain val" by simp_all
  from plain_resolve_expr(1) [OF p(1) O] have ra: "ra = r" by simp
  have "reads a object \<Longrightarrow> ea \<noteq> None" using Set.IH(1) [OF p(1) _ Set.prems(3,4) O] .
  moreover have "reads a val \<Longrightarrow> eb \<noteq> None"
    using Set.IH(2) [OF p(2) _ _ _ V] ra Set.prems(3,4) by simp
  ultimately show ?case using Set.prems(2,5) O V by (auto split: option.splits)
next
  case (Unary op e)
  obtain x ra ea where E: "resolve_expr e r = (x, ra, ea)" by (cases "resolve_expr e r")
  from Unary.prems have "plain e" "reads a e" by simp_all
  note Unary.IH [OF this Unary.prems(3,4) E]
  with Unary.prems E show ?case by auto
next
  case (Ternary c question x colon y)
  obtain c' ra ea where C: "resolve_expr c r = (c', ra, ea)" by (cases "resolve_expr c r")
  obtain x' rb eb where X: "resolve_expr x ra = (x', rb, eb)" by (cases "resolve_expr x ra")
  obtain y' rc ec where Y: "resolve_expr y rb = (y', rc, ec)" by (cases "resolve_expr y rb")
  from Ternary.prems(1) have p: "plain c" "plain x" "plain y" by simp_all
  from plain_resolve_expr(1) [OF p(1) C] have ra: "ra = r" by simp
  from plain_resolve_expr(1) [OF p(2) X] have rb: "rb = ra" by simp
  have "reads a c \<Longrightarrow> ea \<noteq> None" using Ternary.IH(1) [OF p(1) _ Ternary.prems(3,4) C] .
  moreover have "reads a x \<Longrightarrow> eb \<noteq> None"
    using Ternary.IH(2) [OF p(2) _ _ _ X] ra Ternary.prems(3,4) by simp
  moreover have "reads a y \<Longrightarrow> ec \<noteq> None"
    using Ternary.IH(3) [OF p(3) _ _ _ Y] ra rb Ternary.prems(3,4) by simp
  ultimately show ?case using Ternary.prems(2,5) C X Y by (auto split: option.splits)
next
  case (Variable name depth)
  then show ?case by (auto simp: contains_def split: if_splits)
qed auto

lemma declare_name_fresh:
  assumes "scopes r \<noteq> []" and "\<not> contains (last (scopes r)) (lexeme name)"
  shows "declare_name name r
    = (r\<lparr>scopes := butlast (scopes r) @ [last (scopes r) @ [(lexeme name, False)]]\<rparr>, None)"
  using assms by (simp add: declare_name_def emplace_def set_back_def)

lemma declare_name_duplicate:
  assumes "scopes r \<noteq> []" and "contains (last (scopes r)) (lexeme name)"
  shows "declare_name name r
    = (r, Some (CompiletimeError name ''Variable with this name is already declared in this scope''))"
  using assms by (simp add: declare_name_def emplace_def)

text \<open>
  C6 as stated: a declaration in a block whose initializer reads the declared variable
  makes the resolver raise the own-initializer error, and at global scope it raises
  nothing. It fails where the name is already declared in the block: for
  \<^verbatim>\<open>{ var a = nil; var a = a; }\<close> the only diagnostic is the one for the duplicate
  declaration, raised before the initializer is looked at. It fails where the read sits
  in a lambda: \<^verbatim>\<open>{ var a = fun () { return a; }; }\<close> raises nothing, and the read is
  resolved two scopes up. And at global scope \<^verbatim>\<open>var a = a + this;\<close> does raise a
  compile-time error, the one for \<^verbatim>\<open>this\<close> outside a class.
\<close>

theorem own_initializer_not_always_reported:
  "reported (snd (resolve_program
     [BlockStmt [VarStmt \<lparr>lexeme = ''a'', tok_value = NullType\<rparr> (Literal NullType),
                 VarStmt \<lparr>lexeme = ''a'', tok_value = NullType\<rparr>
                   (Variable \<lparr>lexeme = ''a'', tok_value = NullType\<rparr> None)]]))
   = [CompiletimeError \<lparr>lexeme = ''a'', tok_value = NullType\<rparr>
        ''Variable with this name is already declared in this scope'']
   \<and> resolve_program
     [BlockStmt [VarStmt \<lparr>lexeme = ''a'', tok_value = NullType\<rparr>
        (Lambda [] [ReturnStmt \<lparr>lexeme = ''return'', tok_value = NullType\<rparr>
           (Variable \<lparr>lexeme = ''a'', tok_value = NullType\<rparr> None)])]]
   = ([BlockStmt [VarStmt \<lparr>lexeme = ''a'', tok_value = NullType\<rparr>
        (Lambda [] [ReturnStmt \<lparr>lexeme = ''return'', tok_value = NullType\<rparr>
           (Variable \<lparr>lexeme = ''a'', tok_value = NullType\<rparr> (Some 2))])]],
      new_Resolver)
   \<and> reported (snd (resolve_program
     [VarStmt \<lparr>lexeme = ''a'', tok_value = NullType\<rparr>
        (Binary (Variable \<lparr>lexeme = ''a'', tok_value = NullType\<rparr> None)
           \<lparr>lexeme = ''+'', tok_value = NullType\<rparr>
           (This \<lparr>lexeme = ''this'', tok_value = NullType\<rparr> None))]))
   = [CompiletimeError \<lparr>lexeme = ''this'', tok_value = NullType\<rparr>
        ''Can't use 'this' outside of a class'']"
  by (simp add: resolve_program_def new_Resolver_def resolve_stmt.simps resolve_function.simps
      declare_name_def define_name_def emplace_back_def pop_back_def set_back_def emplace_def
      contains_def insert_or_assign_def resolve_local_def error_report_def numeral_2_eq_2)

text \<open>
  C6, amended. Take a declaration whose initializer reads the declared variable outside
  any lambda, the initializer holding no lambda and no \<^verbatim>\<open>this\<close>. In a block (non-empty
  scope stack) whose innermost scope does not hold the name yet, the visit throws the
  own-initializer error, \<open>resolve_stmt\<close> reports exactly that error, and when the
  innermost scope holds no other undefined name the error names the declared variable.
  In a block whose innermost scope already holds the name, the visit throws the
  duplicate-declaration error instead. At global scope (empty scope stack) nothing is
  thrown and nothing is reported.
\<close>

theorem declaration_reads_itself:
  assumes "plain initializer" and "reads (lexeme name) initializer"
  shows "(scopes r \<noteq> [] \<and> \<not> contains (last (scopes r)) (lexeme name) \<longrightarrow>
           (\<exists>err. snd (snd (visit_stmt (VarStmt name initializer) r)) = Some err
              \<and> what err = ''Can't read local variable in its own initializer.''
              \<and> reported (snd (resolve_stmt (VarStmt name initializer) r)) = reported r @ [err]
              \<and> ((\<forall>k. map_of (last (scopes r)) k \<noteq> Some False)
                   \<longrightarrow> lexeme (token err) = lexeme name)))
       \<and> (scopes r \<noteq> [] \<and> contains (last (scopes r)) (lexeme name) \<longrightarrow>
           snd (snd (visit_stmt (VarStmt name initializer) r))
             = Some (CompiletimeError name
                 ''Variable with this name is already declared in this scope''))
       \<and> (scopes r = [] \<longrightarrow>
           snd (snd (visit_stmt (VarStmt name initializer) r)) = None
           \<and> reported (snd (resolve_stmt (VarStmt name initializer) r)) = reported r)"
proof (intro conjI impI)
  assume fresh: "scopes r \<noteq> [] \<and> \<not> contains (last (scopes r)) (lexeme name)"
  let ?r1 = "r\<lparr>scopes := butlast (scopes r) @ [last (scopes r) @ [(lexeme name, False)]]\<rparr>"
  from fresh have D: "declare_name name r = (?r1, None)" by (simp add: declare_name_fresh)
  obtain i rb eb where I: "resolve_expr initializer ?r1 = (i, rb, eb)"
    by (cases "resolve_expr initializer ?r1")
  from fresh have last: "map_of (last (scopes ?r1)) (lexeme name) = Some False"
    by (simp add: contains_def map_add_def)
  have ne: "scopes ?r1 \<noteq> []" by simp
  from reads_resolve_expr(1) [OF assms ne last I] obtain err where eb: "eb = Some err" by auto
  from plain_resolve_expr(1) [OF assms(1) I] eb
  have rb: "rb = ?r1" and own: "own_initializer_error ?r1 err" by simp_all
  from D I eb have V: "visit_stmt (VarStmt name initializer) r = (VarStmt name i, rb, Some err)"
    by simp
  have "what err = ''Can't read local variable in its own initializer.''"
    using own by (cases err) simp
  moreover have "reported (snd (resolve_stmt (VarStmt name initializer) r)) = reported r @ [err]"
    using V rb by (simp add: resolve_stmt.simps error_report_def)
  moreover have "lexeme (token err) = lexeme name"
    if "\<forall>k. map_of (last (scopes r)) k \<noteq> Some False"
  proof (rule ccontr)
    assume neq: "lexeme (token err) \<noteq> lexeme name"
    from own have "map_of (last (scopes ?r1)) (lexeme (token err)) = Some False"
      by (cases err) simp
    with neq have "map_of (last (scopes r)) (lexeme (token err)) = Some False"
      by (simp add: map_add_def split: option.splits)
    with that show False by simp
  qed
  ultimately show "\<exists>err. snd (snd (visit_stmt (VarStmt name initializer) r)) = Some err
              \<and> what err = ''Can't read local variable in its own initializer.''
              \<and> reported (snd (resolve_stmt (VarStmt name initializer) r)) = reported r @ [err]
              \<and> ((\<forall>k. map_of (last (scopes r)) k \<noteq> Some False)
                   \<longrightarrow> lexeme (token err) = lexeme name)"
    using V by auto
next
  assume "scopes r \<noteq> [] \<and> contains (last (scopes r)) (lexeme name)"
  then show "snd (snd (visit_stmt (VarStmt name initializer) r))
             = Some (CompiletimeError name
                 ''Variable with this name is already declared in this scope'')"
    by (simp add: declare_name_duplicate)
next
  assume empty: "scopes r = []"
  then have D: "declare_name name r = (r, None)" by (simp add: declare_name_def)
  obtain i rb eb where I: "resolve_expr initializer r = (i, rb, eb)"
    by (cases "resolve_expr initializer r")
  from plain_resolve_expr(1) [OF assms(1) I] empty have rb: "rb = r" and eb: "eb = None"
    by (cases eb; cases "the eb"; simp)+
  from D I eb rb empty
  have V: "visit_stmt (VarStmt name initializer) r = (VarStmt name i, r, None)"
    by (simp add: define_name_def)
  then show "snd (snd (visit_stmt (VarStmt name initializer) r)) = None" by simp
  from V show "reported (snd (resolve_stmt (VarStmt name initializer) r)) = reported r"
    by (simp add: resolve_stmt.simps)
qed


theorem declaration_reads_itself_witness:
  "(\<exists>err. snd (snd (visit_stmt
        (VarStmt \<lparr>lexeme = ''a'', tok_value = NullType\<rparr>
           (Unary \<lparr>lexeme = ''-'', tok_value = NullType\<rparr>
              (Variable \<lparr>lexeme = ''a'', tok_value = NullType\<rparr> None)))
        (new_Resolver\<lparr>scopes := [[(''b'', True)]]\<rparr>))) = Some err
      \<and> what err = ''Can't read local variable in its own initializer.''
      \<and> reported (snd (resolve_stmt
        (VarStmt \<lparr>lexeme = ''a'', tok_value = NullType\<rparr>
           (Unary \<lparr>lexeme = ''-'', tok_value = NullType\<rparr>
              (Variable \<lparr>lexeme = ''a'', tok_value = NullType\<rparr> None)))
        (new_Resolver\<lparr>scopes := [[(''b'', True)]]\<rparr>))) = [err]
      \<and> lexeme (token err) = ''a'')
   \<and> snd (snd (visit_stmt
        (VarStmt \<lparr>lexeme = ''a'', tok_value = NullType\<rparr>
           (Unary \<lparr>lexeme = ''-'', tok_value = NullType\<rparr>
              (Variable \<lparr>lexeme = ''a'', tok_value = NullType\<rparr> None)))
        (new_Resolver\<lparr>scopes := [[(''a'', True)]]\<rparr>)))
      = Some (CompiletimeError \<lparr>lexeme = ''a'', tok_value = NullType\<rparr>
          ''Variable with this name is already declared in this scope'')
   \<and> snd (snd (visit_stmt
        (VarStmt \<lparr>lexeme = ''a'', tok_value = NullType\<rparr>
           (Unary \<lparr>lexeme = ''-'', tok_value = NullType\<rparr>
              (Variable \<lparr>lexeme = ''a'', tok_value = NullType\<rparr> None)))
        new_Resolver)) = None"
proof -
  let ?a = "\<lparr>lexeme = ''a'', tok_value = NullType\<rparr>"
  let ?init = "Unary \<lparr>lexeme = ''-'', tok_value = NullType\<rparr> (Variable ?a None)"
  have p: "plain ?init" by simp
  have rd: "reads (lexeme ?a) ?init" by simp
  have undefined_free: "\<forall>k. map_of [(''b'', True)] k \<noteq> Some False" by simp
  from declaration_reads_itself [OF p rd, of "new_Resolver\<lparr>scopes := [[(''b'', True)]]\<rparr>"] undefined_free
  have block: "\<exists>err. snd (snd (visit_stmt (VarStmt ?a ?init)
        (new_Resolver\<lparr>scopes := [[(''b'', True)]]\<rparr>))) = Some err
      \<and> what err = ''Can't read local variable in its own initializer.''
      \<and> reported (snd (resolve_stmt (VarStmt ?a ?init)
        (new_Resolver\<lparr>scopes := [[(''b'', True)]]\<rparr>))) = [err]
      \<and> lexeme (token err) = ''a''"
    by (simp add: contains_def new_Resolver_def)
  from declaration_reads_itself [OF p rd, of "new_Resolver\<lparr>scopes := [[(''a'', True)]]\<rparr>"]
  have dup: "snd (snd (visit_stmt (VarStmt ?a ?init) (new_Resolver\<lparr>scopes := [[(''a'', True)]]\<rparr>)))
      = Some (CompiletimeError ?a ''Variable with this name is already declared in this scope'')"
    by (simp add: contains_def)
  from declaration_reads_itself [OF p rd, of new_Resolver]
  have glob: "snd (snd (visit_stmt (VarStmt ?a ?init) new_Resolver)) = None"
    by (simp add: new_Resolver_def)
  from block dup glob show ?thesis by blast
qed

section \<open>The height of the scope stack\<close>

lemma length_declare_name:
  "length (scopes (fst (declare_name name r))) = length (scopes r)"
  by (cases "scopes r = []")
     (simp_all add: declare_name_def set_back_def emplace_def split: prod.splits)

lemma length_define_name:
  "length (scopes (define_name name r)) = length (scopes r)"
  by (cases "scopes r = []") (simp_all add: define_name_def set_back_def)

lemma length_declare_params:
  "length (scopes (fst (declare_params params r))) = length (scopes r)"
proof (induction params arbitrary: r)
  case Nil
  then show ?case by simp
next
  case (Cons p ps)
  obtain ra ea where D: "declare_name p r = (ra, ea)" by (cases "declare_name p r")
  from length_declare_name [of p r] D have "length (scopes ra) = length (scopes r)" by simp
  with D Cons.IH [of "define_name p ra"] show ?case
    by (cases ea) (simp_all add: length_define_name)
qed

lemma declare_params_distinct:
  "scopes r \<noteq> [] \<Longrightarrow> distinct (map lexeme params)
     \<Longrightarrow> \<forall>p \<in> set params. \<not> contains (last (scopes r)) (lexeme p)
     \<Longrightarrow> snd (declare_params params r) = None"
proof (induction params arbitrary: r)
  case Nil
  then show ?case by simp
next
  case (Cons p ps)
  let ?sc = "last (scopes r) @ [(lexeme p, False)]"
  let ?r1 = "set_back ?sc r"
  let ?r2 = "define_name p ?r1"
  from Cons.prems have D: "declare_name p r = (?r1, None)"
    by (simp add: declare_name_def emplace_def)
  have ne: "scopes ?r2 \<noteq> []" by (simp add: define_name_def set_back_def)
  have last: "last (scopes ?r2) = AList.update (lexeme p) True ?sc"
    by (simp add: define_name_def set_back_def insert_or_assign_def)
  have "\<forall>q \<in> set ps. \<not> contains (last (scopes ?r2)) (lexeme q)"
  proof
    fix q assume q: "q \<in> set ps"
    then have "lexeme q \<in> set (map lexeme ps)" by simp
    moreover from Cons.prems(2) have "lexeme p \<notin> set (map lexeme ps)" by simp
    ultimately have "lexeme q \<noteq> lexeme p" by metis
    moreover from q Cons.prems(3) have "map_of (last (scopes r)) (lexeme q) = None"
      by (simp add: contains_def)
    ultimately show "\<not> contains (last (scopes ?r2)) (lexeme q)"
      by (simp add: last contains_def update_conv' map_add_def)
  qed
  with Cons.IH [OF ne] Cons.prems(2) have "snd (declare_params ps ?r2) = None" by simp
  with D show ?case by simp
qed

lemma height_exprs:
  assumes "\<And>x r e' r1 err. x \<in> set es \<Longrightarrow> resolve_expr x r = (e', r1, err)
     \<Longrightarrow> length (scopes r) \<le> length (scopes r1)
       \<and> (distinct_params_expr x \<longrightarrow> length (scopes r1) = length (scopes r))"
  shows "resolve_exprs es r = (es', r1, err)
     \<Longrightarrow> length (scopes r) \<le> length (scopes r1)
       \<and> (list_all distinct_params_expr es \<longrightarrow> length (scopes r1) = length (scopes r))"
  using assms
proof (induction es arbitrary: r es' r1 err)
  case Nil
  then show ?case by simp
next
  case (Cons x xs)
  obtain x' ra ea where X: "resolve_expr x r = (x', ra, ea)" by (cases "resolve_expr x r")
  obtain xs' rb eb where XS: "resolve_exprs xs ra = (xs', rb, eb)"
    by (cases "resolve_exprs xs ra")
  have X2: "length (scopes r) \<le> length (scopes ra)
       \<and> (distinct_params_expr x \<longrightarrow> length (scopes ra) = length (scopes r))"
    using Cons.prems(2) [of x r x' ra ea] X by simp
  have XS2: "length (scopes ra) \<le> length (scopes rb)
       \<and> (list_all distinct_params_expr xs \<longrightarrow> length (scopes rb) = length (scopes ra))"
  proof (rule Cons.IH [OF XS])
    fix y r e' r1 err
    assume "y \<in> set xs" and "resolve_expr y r = (e', r1, err)"
    then show "length (scopes r) \<le> length (scopes r1)
       \<and> (distinct_params_expr y \<longrightarrow> length (scopes r1) = length (scopes r))"
      using Cons.prems(2) [of y r e' r1 err] by simp
  qed
  from Cons.prems(1) X XS X2 XS2 show ?case by (auto split: option.splits)
qed

lemma height_stmt:
  assumes "\<And>r s' r1 err. visit_stmt s r = (s', r1, err)
     \<Longrightarrow> length (scopes r) \<le> length (scopes r1)
       \<and> (distinct_params_stmt s \<longrightarrow> length (scopes r1) = length (scopes r))"
  shows "resolve_stmt s r = (s', r1)
     \<Longrightarrow> length (scopes r) \<le> length (scopes r1)
       \<and> (distinct_params_stmt s \<longrightarrow> length (scopes r1) = length (scopes r))"
proof -
  assume A: "resolve_stmt s r = (s', r1)"
  obtain t ra ea where V: "visit_stmt s r = (t, ra, ea)" by (cases "visit_stmt s r")
  from assms [of r t ra ea] A V show ?thesis
    by (auto simp: resolve_stmt.simps error_report_def split: option.splits)
qed

lemma height_stmts:
  assumes "\<And>x r s' r1 err. x \<in> set ss \<Longrightarrow> visit_stmt x r = (s', r1, err)
     \<Longrightarrow> length (scopes r) \<le> length (scopes r1)
       \<and> (distinct_params_stmt x \<longrightarrow> length (scopes r1) = length (scopes r))"
  shows "resolve_stmts ss r = (ss', r1)
     \<Longrightarrow> length (scopes r) \<le> length (scopes r1)
       \<and> (list_all distinct_params_stmt ss \<longrightarrow> length (scopes r1) = length (scopes r))"
  using assms
proof (induction ss arbitrary: r ss' r1)
  case Nil
  then show ?case by simp
next
  case (Cons x xs)
  obtain x' ra where X: "resolve_stmt x r = (x', ra)" by (cases "resolve_stmt x r")
  obtain xs' rb where XS: "resolve_stmts xs ra = (xs', rb)" by (cases "resolve_stmts xs ra")
  have X2: "length (scopes r) \<le> length (scopes ra)
       \<and> (distinct_params_stmt x \<longrightarrow> length (scopes ra) = length (scopes r))"
  proof (rule height_stmt [OF _ X])
    fix r s' r1 err
    assume "visit_stmt x r = (s', r1, err)"
    then show "length (scopes r) \<le> length (scopes r1)
       \<and> (distinct_params_stmt x \<longrightarrow> length (scopes r1) = length (scopes r))"
      using Cons.prems(2) [of x r s' r1 err] by simp
  qed
  have XS2: "length (scopes ra) \<le> length (scopes rb)
       \<and> (list_all distinct_params_stmt xs \<longrightarrow> length (scopes rb) = length (scopes ra))"
  proof (rule Cons.IH [OF XS])
    fix y r s' r1 err
    assume "y \<in> set xs" and "visit_stmt y r = (s', r1, err)"
    then show "length (scopes r) \<le> length (scopes r1)
       \<and> (distinct_params_stmt y \<longrightarrow> length (scopes r1) = length (scopes r))"
      using Cons.prems(2) [of y r s' r1 err] by simp
  qed
  from Cons.prems(1) X XS X2 XS2 show ?case by auto
qed

lemma height_function:
  assumes "\<And>x r s' r1 err. x \<in> set body \<Longrightarrow> visit_stmt x r = (s', r1, err)
     \<Longrightarrow> length (scopes r) \<le> length (scopes r1)
       \<and> (distinct_params_stmt x \<longrightarrow> length (scopes r1) = length (scopes r))"
  shows "resolve_function ps body k r = (body', r1, err)
     \<Longrightarrow> length (scopes r) \<le> length (scopes r1)
       \<and> (distinct (map lexeme ps) \<and> list_all distinct_params_stmt body
            \<longrightarrow> length (scopes r1) = length (scopes r))"
proof -
  assume A: "resolve_function ps body k r = (body', r1, err)"
  let ?r0 = "emplace_back [] (r\<lparr>function_kind := Some k\<rparr>)"
  obtain ra ea where D: "declare_params ps ?r0 = (ra, ea)" by (cases "declare_params ps ?r0")
  obtain b rb where B: "resolve_stmts body (emplace_back [] ra) = (b, rb)"
    by (cases "resolve_stmts body (emplace_back [] ra)")
  from length_declare_params [of ps ?r0] D
  have la: "length (scopes ra) = Suc (length (scopes r))" by (simp add: emplace_back_def)
  have ea: "distinct (map lexeme ps) \<Longrightarrow> ea = None"
    using declare_params_distinct [of ?r0 ps] D by (simp add: emplace_back_def contains_def)
  have B2: "length (scopes (emplace_back [] ra)) \<le> length (scopes rb)
       \<and> (list_all distinct_params_stmt body
            \<longrightarrow> length (scopes rb) = length (scopes (emplace_back [] ra)))"
  proof (rule height_stmts [OF _ B])
    fix x r s' r1 err
    assume "x \<in> set body" and "visit_stmt x r = (s', r1, err)"
    then show "length (scopes r) \<le> length (scopes r1)
       \<and> (distinct_params_stmt x \<longrightarrow> length (scopes r1) = length (scopes r))"
      by (rule assms)
  qed
  from A D B la ea B2 show ?thesis
    by (auto simp: resolve_function.simps emplace_back_def pop_back_def split: option.splits)
qed

lemma height_methods:
  assumes "\<And>f k r body' r1 err. f \<in> set ms
     \<Longrightarrow> resolve_function (fn_params f) (fn_body f) k r = (body', r1, err)
     \<Longrightarrow> length (scopes r) \<le> length (scopes r1)
       \<and> (distinct_params_fn f \<longrightarrow> length (scopes r1) = length (scopes r))"
  shows "resolve_methods ms r = (ms', r1, err)
     \<Longrightarrow> length (scopes r) \<le> length (scopes r1)
       \<and> (list_all distinct_params_fn ms \<longrightarrow> length (scopes r1) = length (scopes r) \<and> err = None)"
  using assms
proof (induction ms arbitrary: r ms' r1 err)
  case Nil
  then show ?case by simp
next
  case (Cons f fs)
  obtain name params body kind where f: "f = FunctionStmt name params body kind" by (cases f)
  let ?k = "if lexeme name = ''init'' then CONSTRUCTOR else kind"
  obtain b ra ea where F: "resolve_function params body ?k r = (b, ra, ea)"
    by (cases "resolve_function params body ?k r")
  obtain fs' rb eb where FS: "resolve_methods fs ra = (fs', rb, eb)"
    by (cases "resolve_methods fs ra")
  have F2: "length (scopes r) \<le> length (scopes ra)
       \<and> (distinct_params_fn f \<longrightarrow> length (scopes ra) = length (scopes r))"
    using Cons.prems(2) [of f ?k r b ra ea] F f by simp
  have F3: "distinct_params_fn f \<Longrightarrow> ea = None"
  proof -
    assume "distinct_params_fn f"
    with f have d: "distinct (map lexeme params)" by simp
    let ?r0 = "emplace_back [] (r\<lparr>function_kind := Some ?k\<rparr>)"
    from declare_params_distinct [of ?r0 params] d
    have "snd (declare_params params ?r0) = None" by (simp add: emplace_back_def contains_def)
    with F show "ea = None"
      by (cases "declare_params params ?r0")
         (auto simp: resolve_function.simps split: option.splits prod.splits)
  qed
  have FS2: "length (scopes ra) \<le> length (scopes rb)
       \<and> (list_all distinct_params_fn fs \<longrightarrow> length (scopes rb) = length (scopes ra) \<and> eb = None)"
  proof (rule Cons.IH [OF FS])
    fix g k r body' r1 err
    assume "g \<in> set fs"
      and "resolve_function (fn_params g) (fn_body g) k r = (body', r1, err)"
    then show "length (scopes r) \<le> length (scopes r1)
       \<and> (distinct_params_fn g \<longrightarrow> length (scopes r1) = length (scopes r))"
      using Cons.prems(2) [of g k r body' r1 err] by simp
  qed
  from Cons.prems(1) f F FS F2 F3 FS2 show ?case
    by (auto simp: Let_def split: option.splits)
qed


lemma height_resolved:
  "resolve_expr e r = (e', r1, err)
     \<Longrightarrow> length (scopes r) \<le> length (scopes r1)
       \<and> (distinct_params_expr e \<longrightarrow> length (scopes r1) = length (scopes r))"
  "visit_stmt s r = (s', r1, err)
     \<Longrightarrow> length (scopes r) \<le> length (scopes r1)
       \<and> (distinct_params_stmt s \<longrightarrow> length (scopes r1) = length (scopes r))"
  "resolve_function (fn_params f) (fn_body f) k r = (body', r1, err)
     \<Longrightarrow> length (scopes r) \<le> length (scopes r1)
       \<and> (distinct_params_fn f \<longrightarrow> length (scopes r1) = length (scopes r))"
proof (induction e and s and f arbitrary: r e' r1 err and r s' r1 err and k r body' r1 err)
  case (Assign name val depth)
  obtain v ra ea where V: "resolve_expr val r = (v, ra, ea)" by (cases "resolve_expr val r")
  note Assign.IH [OF V]
  with Assign.prems V show ?case by (auto split: option.splits)
next
  case (Binary left op right)
  obtain l ra ea where L: "resolve_expr left r = (l, ra, ea)" by (cases "resolve_expr left r")
  obtain x rb eb where R: "resolve_expr right ra = (x, rb, eb)" by (cases "resolve_expr right ra")
  note Binary.IH(1) [OF L] Binary.IH(2) [OF R]
  with Binary.prems L R show ?case by (auto split: option.splits)
next
  case (Call callee paren arguments)
  obtain c ra ea where C: "resolve_expr callee r = (c, ra, ea)" by (cases "resolve_expr callee r")
  obtain as rb eb where A: "resolve_exprs arguments ra = (as, rb, eb)"
    by (cases "resolve_exprs arguments ra")
  have "length (scopes ra) \<le> length (scopes rb)
       \<and> (list_all distinct_params_expr arguments \<longrightarrow> length (scopes rb) = length (scopes ra))"
  proof (rule height_exprs [OF _ A])
    fix x r e' r1 err
    assume "x \<in> set arguments" and "resolve_expr x r = (e', r1, err)"
    then show "length (scopes r) \<le> length (scopes r1)
       \<and> (distinct_params_expr x \<longrightarrow> length (scopes r1) = length (scopes r))"
      by (rule Call.IH(2))
  qed
  with Call.IH(1) [OF C] Call.prems C A show ?case by (auto split: option.splits)
next
  case (Get object name)
  obtain ob ra ea where O: "resolve_expr object r = (ob, ra, ea)" by (cases "resolve_expr object r")
  note Get.IH [OF O]
  with Get.prems O show ?case by auto
next
  case (Grouping e)
  obtain x ra ea where E: "resolve_expr e r = (x, ra, ea)" by (cases "resolve_expr e r")
  note Grouping.IH [OF E]
  with Grouping.prems E show ?case by auto
next
  case (Lambda params body)
  obtain b ra ea where F: "resolve_function params body LAMDBDA r = (b, ra, ea)"
    by (cases "resolve_function params body LAMDBDA r")
  have "length (scopes r) \<le> length (scopes ra)
       \<and> (distinct (map lexeme params) \<and> list_all distinct_params_stmt body
            \<longrightarrow> length (scopes ra) = length (scopes r))"
  proof (rule height_function [OF _ F])
    fix x r s' r1 err
    assume "x \<in> set body" and "visit_stmt x r = (s', r1, err)"
    then show "length (scopes r) \<le> length (scopes r1)
       \<and> (distinct_params_stmt x \<longrightarrow> length (scopes r1) = length (scopes r))"
      by (rule Lambda.IH)
  qed
  with Lambda.prems F show ?case by auto
next
  case (Literal v)
  then show ?case by auto
next
  case (Logical left op right)
  obtain l ra ea where L: "resolve_expr left r = (l, ra, ea)" by (cases "resolve_expr left r")
  obtain x rb eb where R: "resolve_expr right ra = (x, rb, eb)" by (cases "resolve_expr right ra")
  note Logical.IH(1) [OF L] Logical.IH(2) [OF R]
  with Logical.prems L R show ?case by (auto split: option.splits)
next
  case (Set object name val)
  obtain ob ra ea where O: "resolve_expr object r = (ob, ra, ea)" by (cases "resolve_expr object r")
  obtain v rb eb where V: "resolve_expr val ra = (v, rb, eb)" by (cases "resolve_expr val ra")
  note Set.IH(1) [OF O] Set.IH(2) [OF V]
  with Set.prems O V show ?case by (auto split: option.splits)
next
  case (This keyword depth)
  then show ?case by (auto split: if_splits)
next
  case (Unary op e)
  obtain x ra ea where E: "resolve_expr e r = (x, ra, ea)" by (cases "resolve_expr e r")
  note Unary.IH [OF E]
  with Unary.prems E show ?case by auto
next
  case (Ternary c question a colon b)
  obtain c' ra ea where C: "resolve_expr c r = (c', ra, ea)" by (cases "resolve_expr c r")
  obtain a' rb eb where A: "resolve_expr a ra = (a', rb, eb)" by (cases "resolve_expr a ra")
  obtain b' rc ec where B: "resolve_expr b rb = (b', rc, ec)" by (cases "resolve_expr b rb")
  note Ternary.IH(1) [OF C] Ternary.IH(2) [OF A] Ternary.IH(3) [OF B]
  with Ternary.prems C A B show ?case by (auto split: option.splits)
next
  case (Variable name depth)
  then show ?case by (auto split: if_splits)
next
  case Malformed
  then show ?case by auto
next
  case Empty
  then show ?case by auto
next
  case (BlockStmt statements)
  obtain ss ra where S: "resolve_stmts statements (emplace_back [] r) = (ss, ra)"
    by (cases "resolve_stmts statements (emplace_back [] r)")
  have "length (scopes (emplace_back [] r)) \<le> length (scopes ra)
       \<and> (list_all distinct_params_stmt statements
            \<longrightarrow> length (scopes ra) = length (scopes (emplace_back [] r)))"
  proof (rule height_stmts [OF _ S])
    fix x r s' r1 err
    assume "x \<in> set statements" and "visit_stmt x r = (s', r1, err)"
    then show "length (scopes r) \<le> length (scopes r1)
       \<and> (distinct_params_stmt x \<longrightarrow> length (scopes r1) = length (scopes r))"
      by (rule BlockStmt.IH)
  qed
  with BlockStmt.prems S show ?case by (auto simp: emplace_back_def pop_back_def)
next
  case (ClassStmt name methods)
  let ?r0 = "r\<lparr>class_kind := CLASS\<rparr>"
  obtain ra ea where D: "declare_name name ?r0 = (ra, ea)" by (cases "declare_name name ?r0")
  let ?r1 = "emplace_back [(''this'', True)] (define_name name ra)"
  obtain ms rb eb where M: "resolve_methods methods ?r1 = (ms, rb, eb)"
    by (cases "resolve_methods methods ?r1")
  from length_declare_name [of name ?r0] D have la: "length (scopes ra) = length (scopes r)"
    by simp
  then have l1: "length (scopes ?r1) = Suc (length (scopes r))"
    by (simp add: emplace_back_def length_define_name)
  have "length (scopes ?r1) \<le> length (scopes rb)
       \<and> (list_all distinct_params_fn methods
            \<longrightarrow> length (scopes rb) = length (scopes ?r1) \<and> eb = None)"
  proof (rule height_methods [OF _ M])
    fix f k r body' r1 err
    assume "f \<in> set methods"
      and "resolve_function (fn_params f) (fn_body f) k r = (body', r1, err)"
    then show "length (scopes r) \<le> length (scopes r1)
       \<and> (distinct_params_fn f \<longrightarrow> length (scopes r1) = length (scopes r))"
      by (rule ClassStmt.IH)
  qed
  with ClassStmt.prems D M la l1 show ?case
    by (auto simp: pop_back_def split: option.splits)
next
  case (ExprStmt e)
  obtain x ra ea where E: "resolve_expr e r = (x, ra, ea)" by (cases "resolve_expr e r")
  note ExprStmt.IH [OF E]
  with ExprStmt.prems E show ?case by auto
next
  case (FunctionDecl f)
  obtain name params body kind where f: "f = FunctionStmt name params body kind" by (cases f)
  obtain ra ea where D: "declare_name name r = (ra, ea)" by (cases "declare_name name r")
  obtain b rb eb where F: "resolve_function params body kind (define_name name ra) = (b, rb, eb)"
    by (cases "resolve_function params body kind (define_name name ra)")
  from length_declare_name [of name r] D have la: "length (scopes ra) = length (scopes r)"
    by simp
  have "length (scopes (define_name name ra)) \<le> length (scopes rb)
       \<and> (distinct_params_fn f \<longrightarrow> length (scopes rb) = length (scopes (define_name name ra)))"
    using FunctionDecl.IH [of kind "define_name name ra" b rb eb] F f by simp
  with FunctionDecl.prems f D F la show ?case
    by (auto simp: length_define_name split: option.splits)
next
  case (IfStmt condition then_branch else_branch)
  obtain c ra ea where C: "resolve_expr condition r = (c, ra, ea)"
    by (cases "resolve_expr condition r")
  obtain t rb where T: "resolve_stmt then_branch ra = (t, rb)"
    by (cases "resolve_stmt then_branch ra")
  obtain e rc where E: "resolve_stmt else_branch rb = (e, rc)"
    by (cases "resolve_stmt else_branch rb")
  have ht: "length (scopes ra) \<le> length (scopes rb)
       \<and> (distinct_params_stmt then_branch \<longrightarrow> length (scopes rb) = length (scopes ra))"
  proof (rule height_stmt [OF _ T])
    fix r s' r1 err
    assume "visit_stmt then_branch r = (s', r1, err)"
    then show "length (scopes r) \<le> length (scopes r1)
       \<and> (distinct_params_stmt then_branch \<longrightarrow> length (scopes r1) = length (scopes r))"
      by (rule IfStmt.IH(2))
  qed
  have he: "length (scopes rb) \<le> length (scopes rc)
       \<and> (distinct_params_stmt else_branch \<longrightarrow> length (scopes rc) = length (scopes rb))"
  proof (rule height_stmt [OF _ E])
    fix r s' r1 err
    assume "visit_stmt else_branch r = (s', r1, err)"
    then show "length (scopes r) \<le> length (scopes r1)
       \<and> (distinct_params_stmt else_branch \<longrightarrow> length (scopes r1) = length (scopes r))"
      by (rule IfStmt.IH(3))
  qed
  from IfStmt.IH(1) [OF C] ht he IfStmt.prems C T E show ?case by (auto split: option.splits)
next
  case (PrintStmt e)
  obtain x ra ea where E: "resolve_expr e r = (x, ra, ea)" by (cases "resolve_expr e r")
  note PrintStmt.IH [OF E]
  with PrintStmt.prems E show ?case by auto
next
  case (ReturnStmt keyword val)
  obtain v ra ea where V: "resolve_expr val r = (v, ra, ea)" by (cases "resolve_expr val r")
  note ReturnStmt.IH [OF V]
  with ReturnStmt.prems V show ?case by (auto split: if_splits)
next
  case (VarStmt name initializer)
  obtain ra ea where D: "declare_name name r = (ra, ea)" by (cases "declare_name name r")
  obtain i rb eb where I: "resolve_expr initializer ra = (i, rb, eb)"
    by (cases "resolve_expr initializer ra")
  from length_declare_name [of name r] D have la: "length (scopes ra) = length (scopes r)"
    by simp
  note VarStmt.IH [OF I]
  with VarStmt.prems D I la show ?case
    by (auto simp: length_define_name split: option.splits)
next
  case (WhileStmt condition body)
  obtain c ra ea where C: "resolve_expr condition r = (c, ra, ea)"
    by (cases "resolve_expr condition r")
  obtain b rb where B: "resolve_stmt body ra = (b, rb)" by (cases "resolve_stmt body ra")
  have hb: "length (scopes ra) \<le> length (scopes rb)
       \<and> (distinct_params_stmt body \<longrightarrow> length (scopes rb) = length (scopes ra))"
  proof (rule height_stmt [OF _ B])
    fix r s' r1 err
    assume "visit_stmt body r = (s', r1, err)"
    then show "length (scopes r) \<le> length (scopes r1)
       \<and> (distinct_params_stmt body \<longrightarrow> length (scopes r1) = length (scopes r))"
      by (rule WhileStmt.IH(2))
  qed
  from WhileStmt.IH(1) [OF C] hb WhileStmt.prems C B show ?case by (auto split: option.splits)
next
  case MalformedStmt
  then show ?case by auto
next
  case EmptyStmt
  then show ?case by auto
next
  case (FunctionStmt name params body kind)
  from FunctionStmt.prems have F: "resolve_function params body k r = (body', r1, err)" by simp
  have "length (scopes r) \<le> length (scopes r1)
       \<and> (distinct (map lexeme params) \<and> list_all distinct_params_stmt body
            \<longrightarrow> length (scopes r1) = length (scopes r))"
  proof (rule height_function [OF _ F])
    fix x r s' r1 err
    assume "x \<in> set body" and "visit_stmt x r = (s', r1, err)"
    then show "length (scopes r) \<le> length (scopes r1)
       \<and> (distinct_params_stmt x \<longrightarrow> length (scopes r1) = length (scopes r))"
      by (rule FunctionStmt.IH)
  qed
  then show ?case by simp
qed

text \<open>
  The scope stack never gets lower than it was, so no \<open>pop_back\<close> of the resolver meets an
  empty stack; and a run on a program in which no parameter list repeats a name leaves the
  stack as high as it found it, diagnostics or not.
\<close>

lemma scopes_height:
  "length (scopes r) \<le> length (scopes (snd (resolve_stmts statements r)))"
  "list_all distinct_params_stmt statements
     \<Longrightarrow> length (scopes (snd (resolve_stmts statements r))) = length (scopes r)"
proof -
  obtain ss r1 where R: "resolve_stmts statements r = (ss, r1)"
    by (cases "resolve_stmts statements r")
  have h: "length (scopes r) \<le> length (scopes r1)
       \<and> (list_all distinct_params_stmt statements \<longrightarrow> length (scopes r1) = length (scopes r))"
  proof (rule height_stmts [OF _ R])
    fix x r s' r1 err
    assume "visit_stmt x r = (s', r1, err)"
    then show "length (scopes r) \<le> length (scopes r1)
       \<and> (distinct_params_stmt x \<longrightarrow> length (scopes r1) = length (scopes r))"
      by (rule height_resolved(2))
  qed
  from h R show "length (scopes r) \<le> length (scopes (snd (resolve_stmts statements r)))"
    by simp
  from h R show "list_all distinct_params_stmt statements
     \<Longrightarrow> length (scopes (snd (resolve_stmts statements r))) = length (scopes r)"
    by simp
qed

lemma scopes_empty_without_duplicate_parameters:
  "list_all distinct_params_stmt statements \<Longrightarrow> scopes (snd (resolve_program statements)) = []"
  using scopes_height(2) [of statements new_Resolver]
  by (simp add: resolve_program_def new_Resolver_def)

section \<open>The scope stack after a run\<close>

text \<open>
  C2 on the code. A function statement whose parameter list repeats a name,
  \<^verbatim>\<open>fn f(a, a) {}\<close>, at top level: \<open>resolve_function\<close> has pushed the scope of the parameters
  when the second \<open>declare_name\<close> throws, and nothing pops it on the way to the handler in
  \<open>resolve_stmt\<close>. The run ends with that scope still on the stack and with the function
  kind of the aborted function still set.
\<close>

theorem duplicate_parameter_leaves_scope:
  "resolve_program
     [FunctionDecl (FunctionStmt \<lparr>lexeme = ''f'', tok_value = NullType\<rparr>
        [\<lparr>lexeme = ''a'', tok_value = NullType\<rparr>, \<lparr>lexeme = ''a'', tok_value = NullType\<rparr>]
        [] FUNCTION)]
   = ([FunctionDecl (FunctionStmt \<lparr>lexeme = ''f'', tok_value = NullType\<rparr>
        [\<lparr>lexeme = ''a'', tok_value = NullType\<rparr>, \<lparr>lexeme = ''a'', tok_value = NullType\<rparr>]
        [] FUNCTION)],
      \<lparr>scopes = [[(''a'', True)]], function_kind = Some FUNCTION, class_kind = NONE,
       reported = [CompiletimeError \<lparr>lexeme = ''a'', tok_value = NullType\<rparr>
         ''Variable with this name is already declared in this scope'']\<rparr>)"
  by (simp add: resolve_program_def new_Resolver_def resolve_stmt.simps resolve_function.simps
      declare_name_def define_name_def emplace_back_def pop_back_def set_back_def emplace_def
      contains_def insert_or_assign_def error_report_def)

end
